theory Spec2Isabelle
  imports Complex_Main "HOL-Library.Word"
begin

section \<open>JavaScript strings\<close>

text \<open>
  A JavaScript string is a sequence of UTF-16 code units. A code unit is modelled by its
  number, so that the two Unicode line separators U+2028 and U+2029, which the regular
  expression of \<open>fileToGenerativePart\<close> treats specially, are ordinary elements of the type.
  \<open>lit\<close> embeds an ASCII literal of the source.
\<close>

type_synonym jsstring = "nat list"

definition lit :: "string \<Rightarrow> jsstring" where
  "lit s = map of_char s"

text \<open>
  Truthiness of a value of type \<open>string | null\<close> (or \<open>string | undefined\<close>): \<open>null\<close>,
  \<open>undefined\<close> and the empty string are falsy, every other string is truthy.
\<close>

fun truthy :: "jsstring option \<Rightarrow> bool" where
  "truthy None = False"
| "truthy (Some s) = (s \<noteq> [])"

text \<open>\<open>String.prototype.includes\<close>: does \<open>sub\<close> occur in \<open>s\<close> as a contiguous block?\<close>

fun startsWith :: "jsstring \<Rightarrow> jsstring \<Rightarrow> bool" where
  "startsWith s [] = True"
| "startsWith [] (p # ps) = False"
| "startsWith (c # cs) (p # ps) = (c = p \<and> startsWith cs ps)"

fun includes_str :: "jsstring \<Rightarrow> jsstring \<Rightarrow> bool" where
  "includes_str [] sub = (sub = [])"
| "includes_str (c # cs) sub = (startsWith (c # cs) sub \<or> includes_str cs sub)"

section \<open>services/geminiService.ts: encoding an image reference\<close>

text \<open>
  The types \<open>Part\<close> and \<open>Blob\<close> come from the SDK's declarations; every field is optional
  there. Only the two fields the service reads or writes are kept.
\<close>

record blob =
  mimeType :: "jsstring option"
  data :: "jsstring option"

record part =
  inlineData :: "blob option"
  partText :: "jsstring option"

text \<open>
  A thrown value: an instance of \<open>Error\<close> with its message, or any other value. Of another
  value the program only ever takes \<open>JSON.stringify\<close>, which gives a text, or gives
  \<open>undefined\<close> (for \<open>undefined\<close>, a function, a symbol), or throws a value of its own (a
  circular structure, a \<open>BigInt\<close>, a \<open>toJSON\<close> that throws). Calling \<open>.includes\<close> on
  \<open>undefined\<close> makes the engine throw a \<open>TypeError\<close>; its message is the engine's wording
  and comes with the value.
\<close>

datatype thrown = ErrorObject jsstring | NonError stringified
  and stringified = Serialised jsstring | Undefined jsstring | Throws thrown

text \<open>The character classes of the regular expression: \<open>\w\<close> and the complement of \<open>.\<close>.\<close>

definition isWordChar :: "nat \<Rightarrow> bool" where
  "isWordChar c \<longleftrightarrow>
     (65 \<le> c \<and> c \<le> 90) \<or> (97 \<le> c \<and> c \<le> 122) \<or> (48 \<le> c \<and> c \<le> 57) \<or> c = 95"

definition isLineTerminator :: "nat \<Rightarrow> bool" where
  "isLineTerminator c \<longleftrightarrow> c = 10 \<or> c = 13 \<or> c = 8232 \<or> c = 8233"

fun stripPrefix :: "jsstring \<Rightarrow> jsstring \<Rightarrow> jsstring option" where
  "stripPrefix [] s = Some s"
| "stripPrefix (p # ps) [] = None"
| "stripPrefix (p # ps) (c # cs) = (if p = c then stripPrefix ps cs else None)"

text \<open>
  \<open>imageDataUrl.match(/^data:(image\/\w+);base64,(.*)$/)\<close>, anchored at both ends, no flags.
  The greedy \<open>\w+\<close> is followed by \<open>;\<close>, which is no word character, so the only way to match
  is to take the longest run of word characters; \<open>.\<close> matches everything but a line
  terminator, and \<open>$\<close> is the end of the input. The result is the pair of the two groups.
\<close>

definition matchDataUrl :: "jsstring \<Rightarrow> (jsstring \<times> jsstring) option" where
  "matchDataUrl s =
     (case stripPrefix (lit ''data:image/'') s of
        None \<Rightarrow> None
      | Some r \<Rightarrow>
          (let w = takeWhile isWordChar r in
           if w = [] then None
           else (case stripPrefix (lit '';base64,'') (dropWhile isWordChar r) of
                   None \<Rightarrow> None
                 | Some payload \<Rightarrow>
                     if list_ex isLineTerminator payload then None
                     else Some (lit ''image/'' @ w, payload))))"

definition formatErrorMessage :: jsstring where
  "formatErrorMessage =
     lit ''Invalid image data URL format. Expected '' @ [39] @
     lit ''data:image/...;base64,...'' @ [39]"

definition fileToGenerativePart :: "jsstring \<Rightarrow> thrown + part" where
  "fileToGenerativePart imageDataUrl =
     (case matchDataUrl imageDataUrl of
        None \<Rightarrow> Inl (ErrorObject formatErrorMessage)
      | Some (mt, d) \<Rightarrow>
          Inr \<lparr>inlineData = Some \<lparr>mimeType = Some mt, data = Some d\<rparr>, partText = None\<rparr>)"

text \<open>
  The language of the regular expression, stated without reference to the matcher: the
  matcher above accepts exactly these strings, with exactly these groups.
\<close>

definition isImageDataUrl :: "jsstring \<Rightarrow> jsstring \<Rightarrow> jsstring \<Rightarrow> bool" where
  "isImageDataUrl s mt d \<longleftrightarrow>
     (\<exists>w. w \<noteq> [] \<and> (\<forall>c \<in> set w. isWordChar c) \<and> (\<forall>c \<in> set d. \<not> isLineTerminator c) \<and>
          mt = lit ''image/'' @ w \<and> s = lit ''data:'' @ mt @ lit '';base64,'' @ d)"

section \<open>services/geminiService.ts: decoding the response\<close>

text \<open>
  \<open>GenerateContentResponse\<close> as the SDK declares it: a list of candidates, each with an
  optional content holding an optional list of parts. \<open>response.text\<close> is an accessor of
  the SDK; its value is taken as a field of the response.
\<close>

record content =
  parts :: "part list option"

record candidate =
  candidateContent :: "content option"

record response =
  candidates :: "candidate list option"
  responseText :: "jsstring option"

text \<open>\<open>response.candidates?.[0]?.content?.parts || []\<close>\<close>

definition firstCandidateParts :: "response \<Rightarrow> part list" where
  "firstCandidateParts r =
     (case candidates r of
        None \<Rightarrow> []
      | Some [] \<Rightarrow> []
      | Some (c # _) \<Rightarrow>
          (case candidateContent c of
             None \<Rightarrow> []
           | Some ct \<Rightarrow> (case parts ct of None \<Rightarrow> [] | Some ps \<Rightarrow> ps)))"

text \<open>A value of type \<open>string | undefined\<close> placed in a template literal.\<close>

fun interpolate :: "jsstring option \<Rightarrow> jsstring" where
  "interpolate None = lit ''undefined''"
| "interpolate (Some s) = s"

text \<open>The \<open>for ... of\<close> loop over the parts, returning at the first part with inline data.\<close>

fun firstInlineData :: "part list \<Rightarrow> jsstring option" where
  "firstInlineData [] = None"
| "firstInlineData (p # ps) =
     (case inlineData p of
        Some b \<Rightarrow> Some (lit ''data:'' @ interpolate (mimeType b) @ lit '';base64,'' @ interpolate (data b))
      | None \<Rightarrow> firstInlineData ps)"

definition noTextPlaceholder :: jsstring where
  "noTextPlaceholder = lit ''No text response received.''"

text \<open>\<open>a || b\<close> on a string that may be undefined.\<close>

fun orDefault :: "jsstring option \<Rightarrow> jsstring \<Rightarrow> jsstring" where
  "orDefault None d = d"
| "orDefault (Some s) d = (if s = [] then d else s)"

definition noImageMessage :: "jsstring option \<Rightarrow> jsstring" where
  "noImageMessage textResponse =
     lit ''The AI model responded with text instead of an image: '' @ [34] @
     orDefault textResponse noTextPlaceholder @ [34]"

definition processGeminiResponse :: "response \<Rightarrow> thrown + jsstring" where
  "processGeminiResponse r =
     (case firstInlineData (firstCandidateParts r) of
        Some url \<Rightarrow> Inr url
      | None \<Rightarrow> Inl (ErrorObject (noImageMessage (responseText r))))"

section \<open>services/geminiService.ts: the retry wrapper\<close>

text \<open>
  One call of \<open>ai.models.generateContent\<close> either resolves with a response or rejects with
  a thrown value. The service is outside the program: the wrapper is given the outcome of
  each attempt, by attempt number. The result records what the wrapper returned or threw,
  how many calls it made and the delays (in ms) it waited, in order.
\<close>

datatype 'a settled = Resolved 'a | Rejected thrown

record 'a traced =
  outcome :: "thrown + 'a"
  attempts :: nat
  delays :: "nat list"

definition maxRetries :: nat where
  "maxRetries = 3"

definition initialDelay :: nat where
  "initialDelay = 1000"

definition isInternalError :: "jsstring \<Rightarrow> bool" where
  "isInternalError m \<longleftrightarrow>
     includes_str m (lit ''500'') \<or> includes_str m (lit ''503'') \<or> includes_str m (lit ''INTERNAL'')"

text \<open>
  The first two statements of the \<open>catch\<close> block after the logging:
  \<open>errorMessage = error instanceof Error ? error.message : JSON.stringify(error)\<close> and
  \<open>isInternalError = errorMessage.includes('500') || ...\<close>. They give the flag, or throw:
  what \<open>JSON.stringify\<close> throws, or the \<open>TypeError\<close> of \<open>.includes\<close> on \<open>undefined\<close>.
\<close>

fun checkInternalError :: "thrown \<Rightarrow> thrown + bool" where
  "checkInternalError (ErrorObject m) = Inr (isInternalError m)"
| "checkInternalError (NonError (Serialised j)) = Inr (isInternalError j)"
| "checkInternalError (NonError (Undefined m)) = Inl (ErrorObject m)"
| "checkInternalError (NonError (Throws t)) = Inl t"

text \<open>
  The loop \<open>for (let attempt = 1; attempt <= maxRetries; attempt++)\<close>, with the delays waited
  so far as an accumulator. A value thrown inside the \<open>catch\<close> block leaves the function.
  The last branch is the \<open>throw\<close> after the loop.
\<close>

function retryLoop :: "(nat \<Rightarrow> response settled) \<Rightarrow> nat \<Rightarrow> nat list \<Rightarrow> response traced" where
  "retryLoop gen attempt waited =
     (if attempt \<le> maxRetries then
        (case gen attempt of
           Resolved r \<Rightarrow> \<lparr>outcome = Inr r, attempts = attempt, delays = waited\<rparr>
         | Rejected e \<Rightarrow>
             (case checkInternalError e of
                Inl t \<Rightarrow> \<lparr>outcome = Inl t, attempts = attempt, delays = waited\<rparr>
              | Inr internal \<Rightarrow>
                  if internal \<and> attempt < maxRetries
                  then retryLoop gen (attempt + 1) (waited @ [initialDelay * 2 ^ (attempt - 1)])
                  else \<lparr>outcome = Inl e, attempts = attempt, delays = waited\<rparr>))
      else \<lparr>outcome = Inl (ErrorObject (lit ''Gemini API call failed after all retries.'')),
            attempts = attempt - 1, delays = waited\<rparr>)"
  by pat_completeness auto
termination
  by (relation "measure (\<lambda>(gen, attempt, waited). maxRetries + 1 - attempt)") auto

declare retryLoop.simps [simp del]

definition callGeminiWithRetry :: "(nat \<Rightarrow> response settled) \<Rightarrow> response traced" where
  "callGeminiWithRetry gen = retryLoop gen 1 []"

section \<open>services/geminiService.ts: the three operations\<close>

text \<open>
  The request is the model identifier and the ordered parts; the service answers a request,
  attempt by attempt. Each operation encodes its images first (a malformed reference throws
  before any call is made), calls the service through the retry wrapper and decodes the
  response.
\<close>

record request =
  model :: jsstring
  contents :: "part list"

type_synonym remote = "request \<Rightarrow> nat \<Rightarrow> response settled"

definition imageEditModel :: jsstring where
  "imageEditModel = lit ''gemini-2.5-flash-image-preview''"

definition textPart :: "jsstring \<Rightarrow> part" where
  "textPart t = \<lparr>inlineData = None, partText = Some t\<rparr>"

definition removeAccessoriesPrompt :: jsstring where
  "removeAccessoriesPrompt = lit (''You are an expert photo editor. The user has provided a photo of themselves, likely framed from the knees up. Edit this image to carefully remove any accessories like glasses, hats, or jewelry. It is extremely important that you **do not change the person's facial features, proportions, body shape, skin texture, or expression**. The output must be a photorealistic edited version of the original image, just without the specified accessories.'')"

definition isolateOutfitPrompt :: jsstring where
  "isolateOutfitPrompt = lit (''Analyze the provided image and extract only the clothing items (e.g., shirt, pants, dress, etc.). Remove the person wearing the clothes and any background elements. The output should be an image of just the outfit on a neutral, transparent, or white background, ready to be placed on another model. Do not change the style, color, or shape of the clothing itself.'')"

definition dressModelPrompt :: jsstring where
  "dressModelPrompt = lit (''You are a virtual stylist. The first image is a person (the model) framed from the knees up. The second image is an isolated outfit. Your task is to realistically dress the person from the first image in the outfit from the second image. The final image should show the original person, with their face and body proportions completely unchanged, wearing the new clothes. Ensure the clothing drapes naturally on the person's body and that lighting and shadows are consistent with the original model's photo.'')"

text \<open>\<open>const response = await callGeminiWithRetry(...); return processGeminiResponse(response);\<close>\<close>

definition callAndDecode :: "remote \<Rightarrow> request \<Rightarrow> jsstring traced" where
  "callAndDecode service req =
     (let t = callGeminiWithRetry (service req) in
      \<lparr>outcome = (case outcome t of Inl e \<Rightarrow> Inl e | Inr r \<Rightarrow> processGeminiResponse r),
       attempts = attempts t, delays = delays t\<rparr>)"

definition thrownBeforeCall :: "thrown \<Rightarrow> jsstring traced" where
  "thrownBeforeCall e = \<lparr>outcome = Inl e, attempts = 0, delays = []\<rparr>"

definition removeAccessories :: "remote \<Rightarrow> jsstring \<Rightarrow> jsstring traced" where
  "removeAccessories service imageDataUrl =
     (case fileToGenerativePart imageDataUrl of
        Inl e \<Rightarrow> thrownBeforeCall e
      | Inr imagePart \<Rightarrow>
          callAndDecode service
            \<lparr>model = imageEditModel, contents = [imagePart, textPart removeAccessoriesPrompt]\<rparr>)"

definition isolateOutfit :: "remote \<Rightarrow> jsstring \<Rightarrow> jsstring traced" where
  "isolateOutfit service imageDataUrl =
     (case fileToGenerativePart imageDataUrl of
        Inl e \<Rightarrow> thrownBeforeCall e
      | Inr imagePart \<Rightarrow>
          callAndDecode service
            \<lparr>model = imageEditModel, contents = [imagePart, textPart isolateOutfitPrompt]\<rparr>)"

definition dressModel :: "remote \<Rightarrow> jsstring \<Rightarrow> jsstring \<Rightarrow> jsstring traced" where
  "dressModel service modelImageUrl outfitImageUrl =
     (case fileToGenerativePart modelImageUrl of
        Inl e \<Rightarrow> thrownBeforeCall e
      | Inr modelImagePart \<Rightarrow>
          (case fileToGenerativePart outfitImageUrl of
             Inl e \<Rightarrow> thrownBeforeCall e
           | Inr outfitImagePart \<Rightarrow>
               callAndDecode service
                 \<lparr>model = imageEditModel,
                  contents = [modelImagePart, outfitImagePart, textPart dressModelPrompt]\<rparr>))"

text \<open>
  The shape \<open>data:<mime>;base64,<payload>\<close> in the specification's words, with nothing asked of
  \<open><mime>\<close> or \<open><payload>\<close>. Every string the regular expression accepts has this shape.
\<close>

definition dataUrlShape :: "jsstring \<Rightarrow> bool" where
  "dataUrlShape s \<longleftrightarrow> (\<exists>mime payload. s = lit ''data:'' @ mime @ lit '';base64,'' @ payload)"

section \<open>App: the workflow state\<close>

datatype StepStatus = Idle | Uploaded | Processing | Done | Error

record StepState =
  status :: StepStatus
  originalImage :: "jsstring option"
  processedImage :: "jsstring option"
  error :: "jsstring option"
  approved :: bool

definition initialStepState :: StepState where
  "initialStepState =
     \<lparr>status = Idle, originalImage = None, processedImage = None, error = None,
      approved = False\<rparr>"

text \<open>The five \<open>useState\<close> cells of the component.\<close>

record App =
  step1 :: StepState
  step2 :: StepState
  step3 :: StepState
  album :: "jsstring list"
  isDownloadingAlbum :: bool

definition initialApp :: App where
  "initialApp =
     \<lparr>step1 = initialStepState, step2 = initialStepState, step3 = initialStepState,
      album = [], isDownloadingAlbum = False\<rparr>"

text \<open>
  A handler runs on the state of the latest render, so the \<open>step1\<close>, \<open>step2\<close>, \<open>step3\<close> it
  closes over are the current ones, and a state setter called with a function receives the
  current cell. \<open>updater\<close> is one of the three setters of the steps.
\<close>

datatype updater = SetStep1 | SetStep2 | SetStep3

fun applyUpdater :: "updater \<Rightarrow> (StepState \<Rightarrow> StepState) \<Rightarrow> App \<Rightarrow> App" where
  "applyUpdater SetStep1 f w = w\<lparr>step1 := f (step1 w)\<rparr>"
| "applyUpdater SetStep2 f w = w\<lparr>step2 := f (step2 w)\<rparr>"
| "applyUpdater SetStep3 f w = w\<lparr>step3 := f (step3 w)\<rparr>"

subsection \<open>handleImageUpload\<close>

text \<open>
  The change event either carries no file, or a file that the \<open>FileReader\<close> reads; when
  the read ends, \<open>reader.result\<close> is the data URL, or \<open>null\<close> if the read failed.
\<close>

datatype fileInput = NoFile | FileRead "jsstring option"

fun handleImageUpload :: "fileInput \<Rightarrow> nat \<Rightarrow> App \<Rightarrow> App" where
  "handleImageUpload NoFile step w = w"
| "handleImageUpload (FileRead imageUrl) step w =
     (if step = 1 then
        w\<lparr>step1 := initialStepState\<lparr>status := Uploaded, originalImage := imageUrl\<rparr>,
          step2 := initialStepState,
          step3 := initialStepState\<rparr>
      else if step = 2 then
        w\<lparr>step2 := initialStepState\<lparr>status := Uploaded, originalImage := imageUrl\<rparr>,
          step3 := initialStepState\<rparr>
      else w)"

subsection \<open>handleProcess\<close>

text \<open>
  \<open>handleProcess\<close> is asynchronous. Its synchronous part chooses the setter and the call (or
  returns at once), and marks the step as processing; the rest runs when the call has
  settled, on the state of that moment. The synchronous part returns the new state and,
  when a call was started, the setter and the call that the continuation holds.
\<close>

datatype apiCall =
  RemoveAccessories jsstring
| IsolateOutfit jsstring
| DressModel jsstring jsstring

definition startProcessing :: "updater \<Rightarrow> apiCall \<Rightarrow> App \<Rightarrow> App \<times> (updater \<times> apiCall) option" where
  "startProcessing u c w =
     (applyUpdater u (\<lambda>prev. prev\<lparr>status := Processing, error := None\<rparr>) w, Some (u, c))"

definition handleProcess :: "nat \<Rightarrow> App \<Rightarrow> App \<times> (updater \<times> apiCall) option" where
  "handleProcess step w =
     (if step = 1 \<and> truthy (originalImage (step1 w)) then
        startProcessing SetStep1 (RemoveAccessories (the (originalImage (step1 w)))) w
      else if step = 2 \<and> truthy (originalImage (step2 w)) then
        startProcessing SetStep2 (IsolateOutfit (the (originalImage (step2 w)))) w
      else if step = 3 \<and> truthy (processedImage (step1 w)) \<and> truthy (processedImage (step2 w)) then
        startProcessing SetStep3
          (DressModel (the (processedImage (step1 w))) (the (processedImage (step2 w)))) w
      else (w, None))"

text \<open>\<open>apiCall()\<close>: the operation of the service that the chosen closure runs.\<close>

fun runApiCall :: "remote \<Rightarrow> apiCall \<Rightarrow> jsstring traced" where
  "runApiCall service (RemoveAccessories img) = removeAccessories service img"
| "runApiCall service (IsolateOutfit img) = isolateOutfit service img"
| "runApiCall service (DressModel m o') = dressModel service m o'"

text \<open>\<open>err instanceof Error ? err.message : "An unknown error occurred."\<close>\<close>

fun caughtMessage :: "thrown \<Rightarrow> jsstring" where
  "caughtMessage (ErrorObject m) = m"
| "caughtMessage (NonError v) = lit ''An unknown error occurred.''"

text \<open>The continuation after \<open>await apiCall()\<close>: the \<open>try\<close> branch or the \<open>catch\<close> branch.\<close>

fun processSettled :: "updater \<Rightarrow> thrown + jsstring \<Rightarrow> App \<Rightarrow> App" where
  "processSettled u (Inr resultUrl) w =
     applyUpdater u (\<lambda>prev. prev\<lparr>status := Done, processedImage := Some resultUrl\<rparr>) w"
| "processSettled u (Inl err) w =
     applyUpdater u (\<lambda>prev. prev\<lparr>status := Error, error := Some (caughtMessage err)\<rparr>) w"

text \<open>
  \<open>handleProcess\<close> run to its end with nothing else happening in between: the final state,
  and the trace of the operation if one was started.
\<close>

definition processAwaited :: "remote \<Rightarrow> App \<times> (updater \<times> apiCall) option \<Rightarrow> App \<times> jsstring traced option" where
  "processAwaited service started =
     (case started of
        (w, None) \<Rightarrow> (w, None)
      | (w, Some (u, c)) \<Rightarrow>
          (let t = runApiCall service c in (processSettled u (outcome t) w, Some t)))"

subsection \<open>handleRetry, handleApprove, handleSaveToAlbum, handleDownloadAlbum\<close>

definition handleRetry :: "nat \<Rightarrow> App \<Rightarrow> App \<times> (updater \<times> apiCall) option" where
  "handleRetry step w =
     (if step = 1 then
        (w\<lparr>step1 := initialStepState\<lparr>status := Uploaded, originalImage := originalImage (step1 w)\<rparr>,
           step2 := initialStepState,
           step3 := initialStepState\<rparr>, None)
      else if step = 2 then
        (w\<lparr>step2 := initialStepState\<lparr>status := Uploaded, originalImage := originalImage (step2 w)\<rparr>,
           step3 := initialStepState\<rparr>, None)
      else if step = 3 then handleProcess 3 w
      else (w, None))"

definition handleApprove :: "nat \<Rightarrow> App \<Rightarrow> App" where
  "handleApprove step w =
     (let w' = (if step = 1 then w\<lparr>step1 := (step1 w)\<lparr>approved := True\<rparr>\<rparr> else w)
      in if step = 2 then w'\<lparr>step2 := (step2 w')\<lparr>approved := True\<rparr>\<rparr> else w')"

definition handleSaveToAlbum :: "App \<Rightarrow> App" where
  "handleSaveToAlbum w =
     (if \<not> truthy (processedImage (step3 w)) then w
      else w\<lparr>album := album w @ [the (processedImage (step3 w))],
             step2 := initialStepState,
             step3 := initialStepState\<rparr>)"

text \<open>
  \<open>handleDownloadAlbum\<close> returns at once on an empty album; otherwise it raises the flag,
  composes and downloads the page, and lowers the flag in its \<open>finally\<close> block.
\<close>

definition handleDownloadAlbum :: "App \<Rightarrow> App" where
  "handleDownloadAlbum w = (if album w = [] then w else w\<lparr>isDownloadingAlbum := True\<rparr>)"

definition downloadAlbumSettled :: "App \<Rightarrow> App" where
  "downloadAlbumSettled w = w\<lparr>isDownloadingAlbum := False\<rparr>"

subsection \<open>Sequences of operations\<close>

text \<open>
  What can happen to the state, one event at a time: a handler is called, or a pending
  call settles with some outcome. A call may settle after other events.
\<close>

datatype event =
  ImageUpload fileInput nat
| Process nat
| ProcessSettled updater "thrown + jsstring"
| Retry nat
| Approve nat
| SaveToAlbum
| DownloadAlbum
| DownloadAlbumSettled

fun fire :: "event \<Rightarrow> App \<Rightarrow> App" where
  "fire (ImageUpload f step) w = handleImageUpload f step w"
| "fire (Process step) w = fst (handleProcess step w)"
| "fire (ProcessSettled u r) w = processSettled u r w"
| "fire (Retry step) w = fst (handleRetry step w)"
| "fire (Approve step) w = handleApprove step w"
| "fire SaveToAlbum w = handleSaveToAlbum w"
| "fire DownloadAlbum w = handleDownloadAlbum w"
| "fire DownloadAlbumSettled w = downloadAlbumSettled w"

text \<open>The states a sequence of events goes through, the first one included.\<close>

fun states :: "App \<Rightarrow> event list \<Rightarrow> App list" where
  "states w [] = [w]"
| "states w (e # es) = w # states (fire e w) es"

fun stepOf :: "nat \<Rightarrow> App \<Rightarrow> StepState" where
  "stepOf k w = (if k = 1 then step1 w else if k = 2 then step2 w else step3 w)"

subsection \<open>components/PolaroidCard: when the card offers the approve button\<close>

text \<open>
  The card renders its approve button only inside \<open>status === 'done'\<close> and under
  \<open>!approved\<close>. The cards of steps 1 and 2 call \<open>handleApprove\<close> with their own number; the
  card of step 3 calls \<open>handleSaveToAlbum\<close> instead.
\<close>

definition approveOffered :: "StepState \<Rightarrow> bool" where
  "approveOffered s \<longleftrightarrow> status s = Done \<and> \<not> approved s"

fun offered :: "event \<Rightarrow> App \<Rightarrow> bool" where
  "offered (Approve step) w =
     ((step = 1 \<and> approveOffered (step1 w)) \<or> (step = 2 \<and> approveOffered (step2 w)))"
| "offered e w = True"

text \<open>Every \<open>Approve\<close> of the sequence is fired from a button the card offers at that time.\<close>

fun approvalsOffered :: "App \<Rightarrow> event list \<Rightarrow> bool" where
  "approvalsOffered w [] = True"
| "approvalsOffered w (e # es) = (offered e w \<and> approvalsOffered (fire e w) es)"

section \<open>JavaScript numbers\<close>

text \<open>
  A JavaScript number is an IEEE 754 double. A finite double is modelled by the rational
  it denotes; the result of an arithmetic operation is the exact result rounded to the
  nearest double, ties to the even significand, as the standard prescribes. Zero has no
  sign in the model: the computations modelled here never produce a negative value.

  \<open>bitLength n\<close> is the number of binary digits of a positive integer and \<open>exponentOf x\<close>
  the exponent \<open>e\<close> with \<open>2 ^ e \<le> x < 2 ^ (e + 1)\<close> of a positive rational (both facts are
  proved below).
\<close>

function bitLength :: "int \<Rightarrow> nat" where
  "bitLength n = (if n \<le> 0 then 0 else Suc (bitLength (n div 2)))"
  by pat_completeness auto
termination
  by (relation "measure nat") auto

declare bitLength.simps [simp del]

definition exponentOf :: "rat \<Rightarrow> int" where
  "exponentOf x =
     (if 1 \<le> x then int (bitLength \<lfloor>x\<rfloor>) - 1
      else - int (bitLength (\<lceil>1 / x\<rceil> - 1)))"

text \<open>The integer nearest to \<open>y\<close>, the even one of the two when \<open>y\<close> lies halfway.\<close>

definition roundHalfEven :: "rat \<Rightarrow> int" where
  "roundHalfEven y =
     (let f = \<lfloor>y\<rfloor>; d = y - of_int f
      in if d < 1 / 2 then f else if 1 / 2 < d then f + 1 else if even f then f else f + 1)"

datatype double = Finite rat | PosInf | NegInf | NaN

text \<open>
  Rounding to a double: the spacing of the doubles around \<open>x\<close> is \<open>2 ^ (e - 52)\<close>, where \<open>e\<close>
  is the exponent of \<open>x\<close> and at least \<open>-1022\<close> (below \<open>2 ^ -1022\<close> the doubles are subnormal
  and equally spaced); the result is the nearest multiple of the spacing, and an infinity
  when that multiple needs an exponent above 1023.
\<close>

definition toDouble :: "rat \<Rightarrow> double" where
  "toDouble x =
     (let e = max (exponentOf \<bar>x\<bar>) (- 1022);
          ulp = 2 powi (e - 52);
          r = of_int (roundHalfEven (x / ulp)) * ulp
      in if 1024 \<le> exponentOf \<bar>r\<bar> then (if 0 < r then PosInf else NegInf)
         else Finite r)"

text \<open>
  The four arithmetic operators on numbers, with the special values as the standard gives
  them.
\<close>

fun dadd :: "double \<Rightarrow> double \<Rightarrow> double" where
  "dadd (Finite a) (Finite b) = toDouble (a + b)"
| "dadd NaN b = NaN"
| "dadd a NaN = NaN"
| "dadd PosInf NegInf = NaN"
| "dadd NegInf PosInf = NaN"
| "dadd PosInf b = PosInf"
| "dadd a PosInf = PosInf"
| "dadd NegInf b = NegInf"
| "dadd a NegInf = NegInf"

fun dsub :: "double \<Rightarrow> double \<Rightarrow> double" where
  "dsub (Finite a) (Finite b) = toDouble (a - b)"
| "dsub NaN b = NaN"
| "dsub a NaN = NaN"
| "dsub PosInf PosInf = NaN"
| "dsub NegInf NegInf = NaN"
| "dsub PosInf b = PosInf"
| "dsub a PosInf = NegInf"
| "dsub NegInf b = NegInf"
| "dsub a NegInf = PosInf"

fun dmul :: "double \<Rightarrow> double \<Rightarrow> double" where
  "dmul (Finite a) (Finite b) = toDouble (a * b)"
| "dmul NaN b = NaN"
| "dmul a NaN = NaN"
| "dmul PosInf (Finite b) = (if b = 0 then NaN else if 0 < b then PosInf else NegInf)"
| "dmul NegInf (Finite b) = (if b = 0 then NaN else if 0 < b then NegInf else PosInf)"
| "dmul (Finite a) PosInf = (if a = 0 then NaN else if 0 < a then PosInf else NegInf)"
| "dmul (Finite a) NegInf = (if a = 0 then NaN else if 0 < a then NegInf else PosInf)"
| "dmul PosInf PosInf = PosInf"
| "dmul NegInf NegInf = PosInf"
| "dmul PosInf NegInf = NegInf"
| "dmul NegInf PosInf = NegInf"

fun ddiv :: "double \<Rightarrow> double \<Rightarrow> double" where
  "ddiv (Finite a) (Finite b) =
     (if b = 0 then (if a = 0 then NaN else if 0 < a then PosInf else NegInf)
      else toDouble (a / b))"
| "ddiv NaN b = NaN"
| "ddiv a NaN = NaN"
| "ddiv (Finite a) PosInf = Finite 0"
| "ddiv (Finite a) NegInf = Finite 0"
| "ddiv PosInf (Finite b) = (if 0 \<le> b then PosInf else NegInf)"
| "ddiv NegInf (Finite b) = (if 0 \<le> b then NegInf else PosInf)"
| "ddiv PosInf b = NaN"
| "ddiv NegInf b = NaN"

section \<open>lib/albumUtils: the layout of the album page\<close>

text \<open>
  Only the arithmetic of \<open>createAlbumPage\<close> is modelled: for each loaded image, in order, the
  rectangle it is drawn into. A loaded image is its natural width and height, which the DOM
  declares as \<open>unsigned long\<close>; as numbers they are exact. Every operation of the source on
  numbers is the operation on doubles, in the order the source writes it. The indices
  (\<open>Math.floor(index / cols)\<close>, \<open>index % cols\<close>, \<open>i * cols\<close>) and the row count
  (\<open>Math.ceil(length / cols)\<close>) are computed on integers: with two columns and array
  lengths below \<open>2 ^ 32\<close> the doubles involved are exact.
\<close>

record image =
  naturalWidth :: "32 word"
  naturalHeight :: "32 word"

record placement =
  px :: double
  py :: double
  drawWidth :: double
  drawHeight :: double

text \<open>An \<open>unsigned long\<close> read as a number.\<close>

definition fromWord :: "32 word \<Rightarrow> double" where
  "fromWord w = Finite (of_nat (unat w))"

definition canvasWidth :: double where
  "canvasWidth = Finite 2480"

definition canvasHeight :: double where
  "canvasHeight = Finite 3508"

definition gridCols :: nat where
  "gridCols = 2"

definition gridPadding :: double where
  "gridPadding = Finite 80"

definition contentTopMargin :: double where
  "contentTopMargin = Finite 350"

definition contentWidth :: double where
  "contentWidth = dsub canvasWidth (dmul gridPadding (Finite 2))"

definition cellWidth :: double where
  "cellWidth =
     ddiv (dsub contentWidth (dmul gridPadding (dsub (Finite (of_nat gridCols)) (Finite 1))))
       (Finite (of_nat gridCols))"

definition rows :: "image list \<Rightarrow> int" where
  "rows loadedImages = \<lceil>(of_nat (length loadedImages) :: rat) / of_nat gridCols\<rceil>"

definition aspectRatio :: "image \<Rightarrow> double" where
  "aspectRatio img = ddiv (fromWord (naturalWidth img)) (fromWord (naturalHeight img))"

text \<open>
  The inner loop \<open>for (let i = 0; i < row; i++)\<close>: starting below the header, add the height
  of the first image of each earlier row and one padding. The index \<open>i * cols\<close> is below the
  index of the image being placed.
\<close>

definition yOffsetOfRow :: "image list \<Rightarrow> nat \<Rightarrow> double" where
  "yOffsetOfRow loadedImages row =
     foldl (\<lambda>yOffset i.
         dadd yOffset (dadd (ddiv cellWidth (aspectRatio (loadedImages ! (i * gridCols)))) gridPadding))
       (dadd contentTopMargin gridPadding) [0..<row]"

text \<open>The body of \<open>loadedImages.forEach((img, index) => ...)\<close>, up to the drawing calls.\<close>

definition placeImage :: "image list \<Rightarrow> nat \<Rightarrow> placement" where
  "placeImage loadedImages index =
     (let row = index div gridCols;
          col = index mod gridCols;
          img = loadedImages ! index;
          drawWidth = cellWidth;
          drawHeight = ddiv drawWidth (aspectRatio img)
      in \<lparr>px = dadd gridPadding (dmul (Finite (of_nat col)) (dadd cellWidth gridPadding)),
          py = yOffsetOfRow loadedImages row,
          drawWidth = drawWidth, drawHeight = drawHeight\<rparr>)"

definition albumLayout :: "image list \<Rightarrow> placement list" where
  "albumLayout loadedImages = map (placeImage loadedImages) [0..<length loadedImages]"

section \<open>Encoding: proofs\<close>

lemma stripPrefix_Some_iff: "stripPrefix p s = Some r \<longleftrightarrow> s = p @ r"
  by (induction p s rule: stripPrefix.induct) auto

lemma semicolon_no_word: "\<not> isWordChar 59"
  by (simp add: isWordChar_def)

lemma base64_marker: "lit '';base64,'' = 59 # lit ''base64,''"
  by (simp add: lit_def)

lemma word_run:
  assumes "\<forall>c \<in> set w. isWordChar c"
  shows "takeWhile isWordChar (w @ 59 # t) = w" and "dropWhile isWordChar (w @ 59 # t) = 59 # t"
  using assms semicolon_no_word by simp_all

lemma matchDataUrl_iff: "matchDataUrl s = Some (mt, d) \<longleftrightarrow> isImageDataUrl s mt d"
proof
  assume m: "matchDataUrl s = Some (mt, d)"
  then obtain r where r: "s = lit ''data:image/'' @ r"
    by (auto simp: matchDataUrl_def stripPrefix_Some_iff split: option.splits)
  define w where "w = takeWhile isWordChar r"
  from m r have w: "w \<noteq> []"
    by (auto simp: matchDataUrl_def stripPrefix_Some_iff w_def Let_def split: option.splits if_splits)
  from m r have rest: "dropWhile isWordChar r = lit '';base64,'' @ d"
    and d: "\<not> list_ex isLineTerminator d" and mt: "mt = lit ''image/'' @ w"
    by (auto simp: matchDataUrl_def stripPrefix_Some_iff w_def Let_def split: option.splits if_splits)
  have "r = w @ lit '';base64,'' @ d"
    using rest takeWhile_dropWhile_id [of isWordChar r] by (simp add: w_def)
  moreover have "\<forall>c \<in> set w. isWordChar c"
    by (auto simp: w_def dest: set_takeWhileD)
  moreover have "lit ''data:image/'' = lit ''data:'' @ lit ''image/''"
    by (simp add: lit_def)
  ultimately show "isImageDataUrl s mt d"
    using w d mt r by (auto simp: isImageDataUrl_def list_ex_iff)
next
  assume "isImageDataUrl s mt d"
  then obtain w where w: "w \<noteq> []" "\<forall>c \<in> set w. isWordChar c"
    and d: "\<forall>c \<in> set d. \<not> isLineTerminator c"
    and mt: "mt = lit ''image/'' @ w" and s: "s = lit ''data:'' @ mt @ lit '';base64,'' @ d"
    by (auto simp: isImageDataUrl_def)
  have pre: "lit ''data:'' @ lit ''image/'' = lit ''data:image/''"
    by (simp add: lit_def)
  have "stripPrefix (lit ''data:image/'') s = Some (w @ 59 # lit ''base64,'' @ d)"
    unfolding stripPrefix_Some_iff s mt base64_marker using pre by simp
  moreover have "stripPrefix (lit '';base64,'') (59 # lit ''base64,'' @ d) = Some d"
    unfolding stripPrefix_Some_iff base64_marker by simp
  ultimately show "matchDataUrl s = Some (mt, d)"
    using w d mt word_run [OF w(2)] by (simp add: matchDataUrl_def list_ex_iff)
qed

lemma isImageDataUrl_shape: "isImageDataUrl s mt d \<Longrightarrow> dataUrlShape s"
  unfolding isImageDataUrl_def dataUrlShape_def by blast

lemma matchDataUrl_None_iff: "matchDataUrl s = None \<longleftrightarrow> (\<forall>mt d. \<not> isImageDataUrl s mt d)"
proof -
  have "matchDataUrl s \<noteq> None \<longleftrightarrow> (\<exists>mt d. matchDataUrl s = Some (mt, d))"
    by auto
  then show ?thesis
    unfolding matchDataUrl_iff by blast
qed

lemma png_is_image: 
  "(\<forall>c \<in> set X. \<not> isLineTerminator c) \<Longrightarrow>
   isImageDataUrl (lit ''data:image/png;base64,'' @ X) (lit ''image/png'') X"
  unfolding isImageDataUrl_def
  by (rule exI [of _ "lit ''png''"]) (simp add: lit_def isWordChar_def)

lemma png_payload_unique:
  "isImageDataUrl (lit ''data:image/png;base64,'' @ X) mt d \<Longrightarrow> d = X"
proof -
  assume "isImageDataUrl (lit ''data:image/png;base64,'' @ X) mt d"
  then obtain w where w: "\<forall>c \<in> set w. isWordChar c"
    and eq: "lit ''data:image/png;base64,'' @ X = lit ''data:'' @ (lit ''image/'' @ w) @ lit '';base64,'' @ d"
    by (auto simp: isImageDataUrl_def)
  have "lit ''png'' @ 59 # lit ''base64,'' @ X = w @ 59 # lit ''base64,'' @ d"
    using eq by (simp add: lit_def)
  then have "dropWhile isWordChar (lit ''png'' @ 59 # lit ''base64,'' @ X)
           = dropWhile isWordChar (w @ 59 # lit ''base64,'' @ d)"
    by simp
  moreover have "\<forall>c \<in> set (lit ''png''). isWordChar c"
    by (simp add: lit_def isWordChar_def)
  ultimately have "59 # lit ''base64,'' @ X = 59 # lit ''base64,'' @ d"
    using w by (simp only: word_run)
  then show "d = X" by simp
qed

text \<open>
  C8 (as amended). A reference \<open>data:image/png;base64,X\<close> decomposes to mime type
  \<open>image/png\<close> and payload exactly \<open>X\<close> whenever \<open>X\<close> holds no line terminator (LF, CR,
  U+2028, U+2029), and is rejected when it holds one. Every input that is not of the shape
  \<open>data:<mime>;base64,<payload>\<close>, and more generally every input the regular expression
  does not accept, makes the encoder throw the format error, and each of the three
  operations then throws that error having made no call to the service and waited no delay.
\<close>

theorem fileToGenerativePart_roundtrip:
  "((\<forall>c \<in> set X. \<not> isLineTerminator c) \<longrightarrow>
      fileToGenerativePart (lit ''data:image/png;base64,'' @ X) =
        Inr \<lparr>inlineData = Some \<lparr>mimeType = Some (lit ''image/png''), data = Some X\<rparr>,
             partText = None\<rparr>) \<and>
   ((\<exists>c \<in> set X. isLineTerminator c) \<longrightarrow>
      fileToGenerativePart (lit ''data:image/png;base64,'' @ X) =
        Inl (ErrorObject formatErrorMessage)) \<and>
   ((\<not> dataUrlShape s \<or> (\<forall>mt d. \<not> isImageDataUrl s mt d)) \<longrightarrow>
      fileToGenerativePart s = Inl (ErrorObject formatErrorMessage) \<and>
      removeAccessories service s =
        \<lparr>outcome = Inl (ErrorObject formatErrorMessage), attempts = 0, delays = []\<rparr> \<and>
      isolateOutfit service s =
        \<lparr>outcome = Inl (ErrorObject formatErrorMessage), attempts = 0, delays = []\<rparr> \<and>
      dressModel service s other =
        \<lparr>outcome = Inl (ErrorObject formatErrorMessage), attempts = 0, delays = []\<rparr> \<and>
      dressModel service other s =
        \<lparr>outcome = Inl (ErrorObject formatErrorMessage), attempts = 0, delays = []\<rparr>)"
proof (intro conjI impI)
  assume "\<forall>c \<in> set X. \<not> isLineTerminator c"
  then have "matchDataUrl (lit ''data:image/png;base64,'' @ X) = Some (lit ''image/png'', X)"
    unfolding matchDataUrl_iff by (rule png_is_image)
  then show "fileToGenerativePart (lit ''data:image/png;base64,'' @ X) =
        Inr \<lparr>inlineData = Some \<lparr>mimeType = Some (lit ''image/png''), data = Some X\<rparr>,
             partText = None\<rparr>"
    by (simp add: fileToGenerativePart_def)
next
  assume bad: "\<exists>c \<in> set X. isLineTerminator c"
  have "\<not> isImageDataUrl (lit ''data:image/png;base64,'' @ X) mt d" for mt d
  proof
    assume a: "isImageDataUrl (lit ''data:image/png;base64,'' @ X) mt d"
    then have "d = X" by (rule png_payload_unique)
    with a bad show False by (auto simp: isImageDataUrl_def)
  qed
  then have "matchDataUrl (lit ''data:image/png;base64,'' @ X) = None"
    unfolding matchDataUrl_None_iff by blast
  then show "fileToGenerativePart (lit ''data:image/png;base64,'' @ X) =
        Inl (ErrorObject formatErrorMessage)"
    by (simp add: fileToGenerativePart_def)
next
  assume "\<not> dataUrlShape s \<or> (\<forall>mt d. \<not> isImageDataUrl s mt d)"
  then have "\<forall>mt d. \<not> isImageDataUrl s mt d"
    using isImageDataUrl_shape by blast
  then have "matchDataUrl s = None"
    unfolding matchDataUrl_None_iff .
  then have f: "fileToGenerativePart s = Inl (ErrorObject formatErrorMessage)"
    by (simp add: fileToGenerativePart_def)
  show "fileToGenerativePart s = Inl (ErrorObject formatErrorMessage)"
    by (rule f)
  show "removeAccessories service s =
        \<lparr>outcome = Inl (ErrorObject formatErrorMessage), attempts = 0, delays = []\<rparr>"
    by (simp add: removeAccessories_def f thrownBeforeCall_def)
  show "isolateOutfit service s =
        \<lparr>outcome = Inl (ErrorObject formatErrorMessage), attempts = 0, delays = []\<rparr>"
    by (simp add: isolateOutfit_def f thrownBeforeCall_def)
  show "dressModel service s other =
        \<lparr>outcome = Inl (ErrorObject formatErrorMessage), attempts = 0, delays = []\<rparr>"
    by (simp add: dressModel_def f thrownBeforeCall_def)
  have "fileToGenerativePart other = Inl (ErrorObject formatErrorMessage) \<or>
        (\<exists>p. fileToGenerativePart other = Inr p)"
    by (auto simp: fileToGenerativePart_def split: option.splits)
  then show "dressModel service other s =
        \<lparr>outcome = Inl (ErrorObject formatErrorMessage), attempts = 0, delays = []\<rparr>"
    by (auto simp: dressModel_def f thrownBeforeCall_def)
qed

theorem fileToGenerativePart_roundtrip_witness:
  "\<not> list_ex isLineTerminator (lit ''QUJD'') \<and>
   fileToGenerativePart (lit ''data:image/png;base64,'' @ lit ''QUJD'') =
     Inr \<lparr>inlineData = Some \<lparr>mimeType = Some (lit ''image/png''), data = Some (lit ''QUJD'')\<rparr>,
          partText = None\<rparr> \<and>
   list_ex isLineTerminator [65, 10, 66] \<and>
   fileToGenerativePart (lit ''data:image/png;base64,'' @ [65, 10, 66]) =
     Inl (ErrorObject formatErrorMessage) \<and>
   \<not> dataUrlShape (lit ''photo.png'') \<and>
   removeAccessories (\<lambda>req n. Rejected (ErrorObject [])) (lit ''photo.png'') =
     \<lparr>outcome = Inl (ErrorObject formatErrorMessage), attempts = 0, delays = []\<rparr>"
proof -
  have h1: "\<forall>c \<in> set (lit ''QUJD''). \<not> isLineTerminator c"
    by (simp add: lit_def isLineTerminator_def)
  have h2: "\<exists>c \<in> set [65, 10, 66]. isLineTerminator c"
    by (simp add: isLineTerminator_def)
  have h3: "\<not> dataUrlShape (lit ''photo.png'')"
    by (simp add: dataUrlShape_def lit_def)
  from h1 h2 h3 show ?thesis
    unfolding list_ex_iff
    using fileToGenerativePart_roundtrip
        [of "lit ''QUJD''" "lit ''photo.png''" "\<lambda>req n. Rejected (ErrorObject [])"]
      fileToGenerativePart_roundtrip
        [of "[65, 10, 66]" "lit ''photo.png''" "\<lambda>req n. Rejected (ErrorObject [])"]
    by simp
qed

text \<open>
  C8 as stated fails for a payload with a line feed: \<open>.\<close> does not match it, so the
  reference with payload A, line feed, B is rejected instead of decomposed.
\<close>

theorem fileToGenerativePart_newline_counterexample:
  "fileToGenerativePart (lit ''data:image/png;base64,'' @ [65, 10, 66]) =
     Inl (ErrorObject formatErrorMessage) \<and>
   fileToGenerativePart (lit ''data:image/png;base64,'' @ [65, 10, 66]) \<noteq>
     Inr \<lparr>inlineData = Some \<lparr>mimeType = Some (lit ''image/png''), data = Some [65, 10, 66]\<rparr>,
          partText = None\<rparr>"
  by (simp add: fileToGenerativePart_def matchDataUrl_def lit_def isWordChar_def
      isLineTerminator_def)

section \<open>The retry wrapper and the decoder: proofs\<close>

lemma startsWith_iff: "startsWith s p \<longleftrightarrow> (\<exists>q. s = p @ q)"
  by (induction s p rule: startsWith.induct) auto

lemma includes_str_iff: "includes_str s sub \<longleftrightarrow> (\<exists>p q. s = p @ sub @ q)"
proof (induction s)
  case Nil
  then show ?case by auto
next
  case (Cons c cs)
  show ?case
  proof
    assume "includes_str (c # cs) sub"
    then consider "startsWith (c # cs) sub" | "includes_str cs sub" by auto
    then show "\<exists>p q. c # cs = p @ sub @ q"
    proof cases
      case 1
      then obtain q where "c # cs = sub @ q" by (auto simp: startsWith_iff)
      then have "c # cs = [] @ sub @ q" by simp
      then show ?thesis by blast
    next
      case 2
      then obtain p q where "cs = p @ sub @ q" using Cons.IH by auto
      then have "c # cs = (c # p) @ sub @ q" by simp
      then show ?thesis by blast
    qed
  next
    assume "\<exists>p q. c # cs = p @ sub @ q"
    then obtain p q where pq: "c # cs = p @ sub @ q" by auto
    show "includes_str (c # cs) sub"
    proof (cases p)
      case Nil
      with pq have "\<exists>q. c # cs = sub @ q" by auto
      then have "startsWith (c # cs) sub" by (simp only: startsWith_iff)
      then show ?thesis by simp
    next
      case (Cons a p')
      then have "cs = p' @ sub @ q" using pq by simp
      then show ?thesis using Cons.IH by auto
    qed
  qed
qed

lemma retry_closed_form:
  "callGeminiWithRetry gen =
     (case gen 1 of
        Resolved r \<Rightarrow> \<lparr>outcome = Inr r, attempts = 1, delays = []\<rparr>
      | Rejected e1 \<Rightarrow>
          (case checkInternalError e1 of
             Inl t \<Rightarrow> \<lparr>outcome = Inl t, attempts = 1, delays = []\<rparr>
           | Inr i1 \<Rightarrow>
               if i1 then
                 (case gen 2 of
                    Resolved r \<Rightarrow> \<lparr>outcome = Inr r, attempts = 2, delays = [1000]\<rparr>
                  | Rejected e2 \<Rightarrow>
                      (case checkInternalError e2 of
                         Inl t \<Rightarrow> \<lparr>outcome = Inl t, attempts = 2, delays = [1000]\<rparr>
                       | Inr i2 \<Rightarrow>
                           if i2 then
                             (case gen 3 of
                                Resolved r \<Rightarrow>
                                  \<lparr>outcome = Inr r, attempts = 3, delays = [1000, 2000]\<rparr>
                              | Rejected e3 \<Rightarrow>
                                  (case checkInternalError e3 of
                                     Inl t \<Rightarrow>
                                       \<lparr>outcome = Inl t, attempts = 3, delays = [1000, 2000]\<rparr>
                                   | Inr i3 \<Rightarrow>
                                       \<lparr>outcome = Inl e3, attempts = 3, delays = [1000, 2000]\<rparr>))
                           else \<lparr>outcome = Inl e2, attempts = 2, delays = [1000]\<rparr>))
               else \<lparr>outcome = Inl e1, attempts = 1, delays = []\<rparr>))"
proof -
  have three: "retryLoop gen 3 w =
      (case gen 3 of Resolved r \<Rightarrow> \<lparr>outcome = Inr r, attempts = 3, delays = w\<rparr>
       | Rejected e \<Rightarrow>
           (case checkInternalError e of
              Inl t \<Rightarrow> \<lparr>outcome = Inl t, attempts = 3, delays = w\<rparr>
            | Inr i \<Rightarrow> \<lparr>outcome = Inl e, attempts = 3, delays = w\<rparr>))" for w
    by (subst retryLoop.simps) (simp add: maxRetries_def split: settled.splits sum.splits)
  have two: "retryLoop gen 2 w =
      (case gen 2 of Resolved r \<Rightarrow> \<lparr>outcome = Inr r, attempts = 2, delays = w\<rparr>
       | Rejected e \<Rightarrow>
           (case checkInternalError e of
              Inl t \<Rightarrow> \<lparr>outcome = Inl t, attempts = 2, delays = w\<rparr>
            | Inr i \<Rightarrow> if i then retryLoop gen 3 (w @ [2000])
                       else \<lparr>outcome = Inl e, attempts = 2, delays = w\<rparr>))" for w
    by (subst retryLoop.simps)
       (simp add: maxRetries_def initialDelay_def split: settled.splits sum.splits)
  have one: "retryLoop gen 1 w =
      (case gen 1 of Resolved r \<Rightarrow> \<lparr>outcome = Inr r, attempts = 1, delays = w\<rparr>
       | Rejected e \<Rightarrow>
           (case checkInternalError e of
              Inl t \<Rightarrow> \<lparr>outcome = Inl t, attempts = 1, delays = w\<rparr>
            | Inr i \<Rightarrow> if i then retryLoop gen 2 (w @ [1000])
                       else \<lparr>outcome = Inl e, attempts = 1, delays = w\<rparr>))" for w
    by (subst retryLoop.simps)
       (simp add: maxRetries_def initialDelay_def numeral_2_eq_2 [symmetric]
          split: settled.splits sum.splits)
  show ?thesis
    unfolding callGeminiWithRetry_def one two three
    by (simp split: settled.splits sum.splits)
qed

lemma isInternalError_iff:
  "isInternalError m \<longleftrightarrow>
     (\<exists>p q. m = p @ lit ''500'' @ q) \<or> (\<exists>p q. m = p @ lit ''503'' @ q) \<or>
     (\<exists>p q. m = p @ lit ''INTERNAL'' @ q)"
  by (simp only: isInternalError_def includes_str_iff)

lemma all_attempts_upto3:
  assumes "a \<le> 3"
  shows "(\<forall>n. 1 \<le> n \<and> n \<le> a \<longrightarrow> R n) \<longleftrightarrow>
         ((1 \<le> a \<longrightarrow> R 1) \<and> (2 \<le> a \<longrightarrow> R 2) \<and> (3 \<le> a \<longrightarrow> R (3::nat)))"
proof
  assume "\<forall>n. 1 \<le> n \<and> n \<le> a \<longrightarrow> R n"
  then show "(1 \<le> a \<longrightarrow> R 1) \<and> (2 \<le> a \<longrightarrow> R 2) \<and> (3 \<le> a \<longrightarrow> R 3)"
    by simp
next
  assume r: "(1 \<le> a \<longrightarrow> R 1) \<and> (2 \<le> a \<longrightarrow> R 2) \<and> (3 \<le> a \<longrightarrow> R 3)"
  show "\<forall>n. 1 \<le> n \<and> n \<le> a \<longrightarrow> R n"
  proof (intro allI impI)
    fix n assume n: "1 \<le> n \<and> n \<le> a"
    with assms consider "n = 1" | "n = 2" | "n = 3" by arith
    then show "R n" using n r by cases auto
  qed
qed

text \<open>
  What the wrapper does, whatever the service answers, attempt by attempt. It makes between
  one and three calls; the delays it waited are \<open>1000 * 2 ^ (n - 1)\<close> ms after each attempt
  \<open>n\<close> but the last, in order. For every attempt \<open>n\<close> it made: a success is the result and
  ends the run; a failure for which the check of the \<open>catch\<close> block throws ends the run with
  what the check threw, not with the failure; a failure whose message contains \<open>500\<close>,
  \<open>503\<close> or \<open>INTERNAL\<close>, on an attempt before the third, is followed by that delay and
  another attempt; any other failure is thrown as it is and ends the run.
\<close>

lemma retry_policy:
  fixes gen :: "nat \<Rightarrow> response settled"
  defines "t \<equiv> callGeminiWithRetry gen"
  shows
  "1 \<le> attempts t \<and> attempts t \<le> 3 \<and>
   delays t = map (\<lambda>n. 1000 * 2 ^ (n - 1)) [1..<attempts t] \<and>
   (\<forall>n. 1 \<le> n \<and> n \<le> attempts t \<longrightarrow>
      (case gen n of
         Resolved r \<Rightarrow> attempts t = n \<and> outcome t = Inr r
       | Rejected e \<Rightarrow>
           (case checkInternalError e of
              Inl thrownByCheck \<Rightarrow> attempts t = n \<and> outcome t = Inl thrownByCheck
            | Inr internal \<Rightarrow>
                if internal \<and> n < 3
                then n < attempts t \<and> delays t ! (n - 1) = 1000 * 2 ^ (n - 1)
                else attempts t = n \<and> outcome t = Inl e)))"
proof -
  have upt: "[1..<2] = [1::nat]" "[1..<3] = [1, 2::nat]" "[1..<1] = ([]::nat list)"
    by (simp_all add: upt_rec)
  have a: "attempts t \<le> 3"
    unfolding t_def retry_closed_form by (simp split: settled.splits sum.splits)
  show ?thesis
    unfolding all_attempts_upto3 [OF a]
    unfolding t_def retry_closed_form
    using upt by (simp split: settled.splits sum.splits)
qed

text \<open>
  C2. The claim fails when the service rejects with a value that is no \<open>Error\<close> and for
  which \<open>JSON.stringify\<close> gives \<open>undefined\<close> (the value \<open>undefined\<close> itself, for one): the
  \<open>catch\<close> block then throws the \<open>TypeError\<close> of \<open>errorMessage.includes\<close> and the failure is
  not propagated, on the first attempt as on the third. The message is V8's wording. A
  value on which \<open>JSON.stringify\<close> throws (a circular object) is masked in the same way, by
  what \<open>JSON.stringify\<close> throws. The comment at the re-throw says that a failure that is
  not retriable is thrown again, and the \<open>catch\<close> block of \<open>handleProcess\<close> takes a value
  that is no \<open>Error\<close> without calling anything on it.
\<close>

theorem callGeminiWithRetry_masks_failure:
  "callGeminiWithRetry
     (\<lambda>n. Rejected (NonError (Undefined
        (lit ''Cannot read properties of undefined (reading 'includes')'')))) =
     \<lparr>outcome = Inl (ErrorObject
        (lit ''Cannot read properties of undefined (reading 'includes')'')),
      attempts = 1, delays = []\<rparr> \<and>
   callGeminiWithRetry
     (\<lambda>n. if n = 3
          then Rejected (NonError (Undefined
            (lit ''Cannot read properties of undefined (reading 'includes')'')))
          else Rejected (ErrorObject (lit ''503 Service Unavailable''))) =
     \<lparr>outcome = Inl (ErrorObject
        (lit ''Cannot read properties of undefined (reading 'includes')'')),
      attempts = 3, delays = [1000, 2000]\<rparr> \<and>
   ErrorObject (lit ''Cannot read properties of undefined (reading 'includes')'') \<noteq>
     NonError (Undefined (lit ''Cannot read properties of undefined (reading 'includes')'')) \<and>
   callGeminiWithRetry
     (\<lambda>n. Rejected (NonError (Throws
        (ErrorObject (lit ''Converting circular structure to JSON''))))) =
     \<lparr>outcome = Inl (ErrorObject (lit ''Converting circular structure to JSON'')),
      attempts = 1, delays = []\<rparr>"
proof -
  have "isInternalError (lit ''503 Service Unavailable'')"
    by (simp add: isInternalError_def lit_def)
  then show ?thesis
    by (simp add: retry_closed_form)
qed








section \<open>The workflow: proofs\<close>

lemma fire_approved:
  assumes "offered e w" and "approved (stepOf k (fire e w))"
  shows "approved (stepOf k w) \<or> status (stepOf k w) = Done"
proof (cases e)
  case (ImageUpload f step)
  with assms show ?thesis
    by (cases f) (auto simp: initialStepState_def split: if_splits)
next
  case (Process step)
  with assms show ?thesis
    by (auto simp: handleProcess_def startProcessing_def split: if_splits)
next
  case (ProcessSettled u r)
  with assms show ?thesis
    by (cases u; cases r) (auto split: if_splits)
next
  case (Retry step)
  with assms show ?thesis
    by (auto simp: handleRetry_def handleProcess_def startProcessing_def initialStepState_def
        split: if_splits)
next
  case (Approve step)
  with assms show ?thesis
    by (auto simp: handleApprove_def approveOffered_def split: if_splits)
next
  case SaveToAlbum
  with assms show ?thesis
    by (auto simp: handleSaveToAlbum_def initialStepState_def split: if_splits)
next
  case DownloadAlbum
  with assms show ?thesis
    by (auto simp: handleDownloadAlbum_def split: if_splits)
next
  case DownloadAlbumSettled
  with assms show ?thesis
    by (auto simp: downloadAlbumSettled_def split: if_splits)
qed

lemma states_nonempty: "states w es \<noteq> []"
  by (cases es) simp_all

lemma head_in_states: "w \<in> set (states w es)"
  by (cases es) simp_all

lemma approved_had_done:
  "approvalsOffered w es \<Longrightarrow> approved (stepOf k (last (states w es))) \<Longrightarrow>
   approved (stepOf k w) \<or> (\<exists>w' \<in> set (states w es). status (stepOf k w') = Done)"
proof (induction es arbitrary: w)
  case Nil
  then show ?case by simp
next
  case (Cons e es)
  from Cons.prems have off: "offered e w" and rest: "approvalsOffered (fire e w) es"
    by simp_all
  from Cons.prems have "approved (stepOf k (last (states (fire e w) es)))"
    by (simp add: states_nonempty)
  with Cons.IH [OF rest]
  consider "approved (stepOf k (fire e w))"
    | "\<exists>w' \<in> set (states (fire e w) es). status (stepOf k w') = Done"
    by blast
  then show ?case
  proof cases
    case 1
    with off have "approved (stepOf k w) \<or> status (stepOf k w) = Done"
      by (rule fire_approved)
    then show ?thesis by auto
  next
    case 2
    then show ?thesis by auto
  qed
qed

lemma fire_step3_approved: "approved (step3 (fire e w)) \<Longrightarrow> approved (step3 w)"
proof (cases e)
  case (ImageUpload f step)
  assume "approved (step3 (fire e w))"
  with ImageUpload show ?thesis
    by (cases f) (auto simp: initialStepState_def split: if_splits)
next
  case (ProcessSettled u r)
  assume "approved (step3 (fire e w))"
  with ProcessSettled show ?thesis
    by (cases u; cases r) (auto split: if_splits)
qed (auto simp: handleProcess_def startProcessing_def handleRetry_def handleApprove_def
      handleSaveToAlbum_def handleDownloadAlbum_def downloadAlbumSettled_def initialStepState_def
      Let_def split: if_splits)

lemma step3_never_approved_from:
  "\<not> approved (step3 w) \<Longrightarrow> \<not> approved (step3 (last (states w es)))"
proof (induction es arbitrary: w)
  case Nil
  then show ?case by simp
next
  case (Cons e es)
  from Cons.prems have "\<not> approved (step3 (fire e w))"
    using fire_step3_approved by blast
  then show ?case using Cons.IH by (simp add: states_nonempty)
qed

text \<open>
  C1 (as amended). \<open>handleApprove\<close> on step 1 or 2 sets \<open>approved\<close> of that step and changes
  nothing else, whatever the status of the step; on any other number it changes nothing,
  and no operation ever sets \<open>approved\<close> of step 3. The test for \<open>done\<close> is made by the card,
  which offers the approve button only when the status is \<open>done\<close>: along every sequence of
  events from the initial state in which each \<open>Approve\<close> comes from an offered button, a step
  that is approved at the end had status \<open>done\<close> in some state of the sequence.
\<close>

theorem approve_sets_flag_and_card_gates:
  "handleApprove 1 w = w\<lparr>step1 := (step1 w)\<lparr>approved := True\<rparr>\<rparr> \<and>
   handleApprove 2 w = w\<lparr>step2 := (step2 w)\<lparr>approved := True\<rparr>\<rparr> \<and>
   (step \<noteq> 1 \<and> step \<noteq> 2 \<longrightarrow> handleApprove step w = w) \<and>
   \<not> approved (step3 (last (states initialApp es))) \<and>
   (approvalsOffered initialApp es \<longrightarrow>
      (\<forall>k. approved (stepOf k (last (states initialApp es))) \<longrightarrow>
           (\<exists>w' \<in> set (states initialApp es). status (stepOf k w') = Done)))"
proof (intro conjI impI allI)
  show "handleApprove 1 w = w\<lparr>step1 := (step1 w)\<lparr>approved := True\<rparr>\<rparr>"
    by (simp add: handleApprove_def)
  show "handleApprove 2 w = w\<lparr>step2 := (step2 w)\<lparr>approved := True\<rparr>\<rparr>"
    by (simp add: handleApprove_def)
  show "handleApprove step w = w" if "step \<noteq> 1 \<and> step \<noteq> 2"
    using that by (simp add: handleApprove_def)
  show "\<not> approved (step3 (last (states initialApp es)))"
    by (rule step3_never_approved_from) (simp add: initialApp_def initialStepState_def)
  fix k
  assume "approvalsOffered initialApp es" "approved (stepOf k (last (states initialApp es)))"
  then have "approved (stepOf k initialApp) \<or>
      (\<exists>w' \<in> set (states initialApp es). status (stepOf k w') = Done)"
    by (rule approved_had_done)
  moreover have "\<not> approved (stepOf k initialApp)"
    by (simp add: initialApp_def initialStepState_def)
  ultimately show "\<exists>w' \<in> set (states initialApp es). status (stepOf k w') = Done"
    by blast
qed


lemmas handler_defs =
  handleProcess_def startProcessing_def handleRetry_def handleApprove_def handleSaveToAlbum_def
  handleDownloadAlbum_def downloadAlbumSettled_def initialStepState_def initialApp_def
  approveOffered_def

text \<open>
  Upload, process, success, approve on step 1: the approval is offered, step 1 ends
  approved, and a state of the run has step 1 at \<open>done\<close>.
\<close>

theorem approve_sets_flag_and_card_gates_witness:
  "approvalsOffered initialApp
     [ImageUpload (FileRead (Some (lit ''data:image/png;base64,QUJD''))) 1, Process 1,
      ProcessSettled SetStep1 (Inr (lit ''data:image/png;base64,REVG'')), Approve 1] \<and>
   approved (stepOf 1 (last (states initialApp
     [ImageUpload (FileRead (Some (lit ''data:image/png;base64,QUJD''))) 1, Process 1,
      ProcessSettled SetStep1 (Inr (lit ''data:image/png;base64,REVG'')), Approve 1]))) \<and>
   (\<exists>w' \<in> set (states initialApp
     [ImageUpload (FileRead (Some (lit ''data:image/png;base64,QUJD''))) 1, Process 1,
      ProcessSettled SetStep1 (Inr (lit ''data:image/png;base64,REVG'')), Approve 1]).
      status (stepOf 1 w') = Done)"
proof -
  let ?es = "[ImageUpload (FileRead (Some (lit ''data:image/png;base64,QUJD''))) 1, Process 1,
      ProcessSettled SetStep1 (Inr (lit ''data:image/png;base64,REVG'')), Approve 1]"
  have nonempty: "lit ''data:image/png;base64,QUJD'' \<noteq> []"
    by (simp add: lit_def)
  have h1: "approvalsOffered initialApp ?es"
    using nonempty by (simp add: handler_defs)
  have h2: "approved (stepOf 1 (last (states initialApp ?es)))"
    using nonempty by (simp add: handler_defs)
  from approve_sets_flag_and_card_gates [of initialApp 3 ?es] h1 h2
  show ?thesis by blast
qed

text \<open>
  C1 as stated fails: \<open>handleApprove 1\<close> on the initial state, where step 1 is \<open>idle\<close>,
  changes the state and leaves step 1 approved though no state of the run had it at \<open>done\<close>.
\<close>

theorem approve_before_done_counterexample:
  "status (step1 initialApp) = Idle \<and>
   handleApprove 1 initialApp \<noteq> initialApp \<and>
   states initialApp [Approve 1] = [initialApp, handleApprove 1 initialApp] \<and>
   approved (step1 (handleApprove 1 initialApp)) \<and>
   status (step1 (handleApprove 1 initialApp)) = Idle"
  by (simp add: handler_defs)

text \<open>
  C3. Process on step 3 returns at once, with the whole state as it was and no call
  started, unless the processed images of steps 1 and 2 are both non-empty; Process on
  step 1 or 2 does the same unless the original image of that step is non-empty.
\<close>

theorem handleProcess_precondition:
  "(\<not> (truthy (processedImage (step1 w)) \<and> truthy (processedImage (step2 w))) \<longrightarrow>
      handleProcess 3 w = (w, None) \<and> processAwaited service (handleProcess 3 w) = (w, None)) \<and>
   (\<not> truthy (originalImage (step1 w)) \<longrightarrow>
      handleProcess 1 w = (w, None) \<and> processAwaited service (handleProcess 1 w) = (w, None)) \<and>
   (\<not> truthy (originalImage (step2 w)) \<longrightarrow>
      handleProcess 2 w = (w, None) \<and> processAwaited service (handleProcess 2 w) = (w, None))"
  by (simp add: handleProcess_def processAwaited_def)

text \<open>
  The initial state has no processed image, and an empty string counts as no image.
\<close>

theorem handleProcess_precondition_witness:
  "\<not> (truthy (processedImage (step1 initialApp)) \<and> truthy (processedImage (step2 initialApp))) \<and>
   handleProcess 3 initialApp = (initialApp, None) \<and>
   processAwaited (\<lambda>req n. Rejected (ErrorObject [])) (handleProcess 3 initialApp) =
     (initialApp, None) \<and>
   \<not> truthy (originalImage (step1 (initialApp\<lparr>step1 := initialStepState\<lparr>originalImage := Some []\<rparr>\<rparr>))) \<and>
   handleProcess 1 (initialApp\<lparr>step1 := initialStepState\<lparr>originalImage := Some []\<rparr>\<rparr>) =
     (initialApp\<lparr>step1 := initialStepState\<lparr>originalImage := Some []\<rparr>\<rparr>, None)"
proof -
  have h3: "\<not> (truthy (processedImage (step1 initialApp)) \<and>
      truthy (processedImage (step2 initialApp)))"
    by (simp add: initialApp_def initialStepState_def)
  have h1: "\<not> truthy (originalImage
      (step1 (initialApp\<lparr>step1 := initialStepState\<lparr>originalImage := Some []\<rparr>\<rparr>)))"
    by simp
  from h3 h1 show ?thesis
    using handleProcess_precondition [of initialApp "\<lambda>req n. Rejected (ErrorObject [])"]
      handleProcess_precondition
        [of "initialApp\<lparr>step1 := initialStepState\<lparr>originalImage := Some []\<rparr>\<rparr>"
            "\<lambda>req n. Rejected (ErrorObject [])"]
    by blast
qed

text \<open>
  C4. An upload at step 1 or 2 that yields an image puts the step in \<open>uploaded\<close> with that
  image as the original one, no processed image, no error and no approval, and resets
  every later step to the initial state; the rest of the state is unchanged.
\<close>

theorem handleImageUpload_resets_downstream:
  "handleImageUpload (FileRead (Some img)) 1 w =
     w\<lparr>step1 := \<lparr>status = Uploaded, originalImage = Some img, processedImage = None,
                  error = None, approved = False\<rparr>,
       step2 := initialStepState, step3 := initialStepState\<rparr> \<and>
   handleImageUpload (FileRead (Some img)) 2 w =
     w\<lparr>step2 := \<lparr>status = Uploaded, originalImage = Some img, processedImage = None,
                  error = None, approved = False\<rparr>,
       step3 := initialStepState\<rparr> \<and>
   initialStepState =
     \<lparr>status = Idle, originalImage = None, processedImage = None, error = None,
      approved = False\<rparr>"
  by (simp add: initialStepState_def)

text \<open>
  C5. Retry on step 1 puts step 1 back in \<open>uploaded\<close> with its original image, without
  processed image, error or approval, and resets steps 2 and 3; Retry on step 2 does so for
  step 2 and resets step 3 only; Retry on step 3 is Process on step 3, and neither its
  synchronous part nor its completion touches steps 1 and 2.
\<close>

theorem handleRetry_cascade:
  "handleRetry 1 w =
     (w\<lparr>step1 := \<lparr>status = Uploaded, originalImage = originalImage (step1 w),
                   processedImage = None, error = None, approved = False\<rparr>,
        step2 := initialStepState, step3 := initialStepState\<rparr>, None) \<and>
   handleRetry 2 w =
     (w\<lparr>step2 := \<lparr>status = Uploaded, originalImage = originalImage (step2 w),
                   processedImage = None, error = None, approved = False\<rparr>,
        step3 := initialStepState\<rparr>, None) \<and>
   handleRetry 3 w = handleProcess 3 w \<and>
   step1 (fst (handleRetry 3 w)) = step1 w \<and>
   step2 (fst (handleRetry 3 w)) = step2 w \<and>
   step1 (fst (processAwaited service (handleRetry 3 w))) = step1 w \<and>
   step2 (fst (processAwaited service (handleRetry 3 w))) = step2 w"
proof -
  have "step1 (processSettled SetStep3 r w') = step1 w' \<and>
        step2 (processSettled SetStep3 r w') = step2 w'" for r w'
    by (cases r) simp_all
  then show ?thesis
    by (simp add: handleRetry_def handleProcess_def startProcessing_def processAwaited_def
        initialStepState_def Let_def)
qed


lemma album_fire: "e \<noteq> SaveToAlbum \<Longrightarrow> album (fire e w) = album w"
proof (cases e)
  case (ImageUpload f step)
  then show ?thesis by (cases f) simp_all
next
  case (ProcessSettled u r)
  then show ?thesis by (cases u; cases r) simp_all
qed (simp_all add: handleProcess_def startProcessing_def handleRetry_def handleApprove_def
      handleDownloadAlbum_def downloadAlbumSettled_def Let_def)

lemma album_processAwaited: "album (fst (processAwaited service (handleProcess step w))) = album w"
proof -
  have "album (processSettled u r w') = album w'" for u r w'
    by (cases u; cases r) simp_all
  then show ?thesis
    by (simp add: handleProcess_def startProcessing_def processAwaited_def Let_def)
qed

text \<open>
  C6. With a non-empty processed image at step 3, saving appends that image at the end of
  the album, resets steps 2 and 3 and leaves step 1 as it is; with none it changes nothing.
  No other event changes the album, and neither does a Process or a Retry run to its end.
\<close>

theorem handleSaveToAlbum_appends:
  "(processedImage (step3 w) = Some img \<and> img \<noteq> [] \<longrightarrow>
      handleSaveToAlbum w =
        w\<lparr>album := album w @ [img], step2 := initialStepState, step3 := initialStepState\<rparr> \<and>
      step1 (handleSaveToAlbum w) = step1 w) \<and>
   (\<not> truthy (processedImage (step3 w)) \<longrightarrow> handleSaveToAlbum w = w) \<and>
   (e \<noteq> SaveToAlbum \<longrightarrow> album (fire e w) = album w) \<and>
   album (fst (processAwaited service (handleProcess step w))) = album w \<and>
   album (fst (processAwaited service (handleRetry step w))) = album w"
proof (intro conjI impI)
  assume "processedImage (step3 w) = Some img \<and> img \<noteq> []"
  then show "handleSaveToAlbum w =
        w\<lparr>album := album w @ [img], step2 := initialStepState, step3 := initialStepState\<rparr>"
    and "step1 (handleSaveToAlbum w) = step1 w"
    by (simp_all add: handleSaveToAlbum_def)
next
  assume "\<not> truthy (processedImage (step3 w))"
  then show "handleSaveToAlbum w = w"
    by (simp add: handleSaveToAlbum_def)
next
  assume "e \<noteq> SaveToAlbum"
  then show "album (fire e w) = album w"
    by (rule album_fire)
next
  show "album (fst (processAwaited service (handleProcess step w))) = album w"
    by (rule album_processAwaited)
  then show "album (fst (processAwaited service (handleRetry step w))) = album w"
    using album_processAwaited [of service 3 w]
    by (simp add: handleRetry_def processAwaited_def)
qed

text \<open>
  Saving \<open>B\<close> into the album \<open>[A]\<close> gives \<open>[A, B]\<close>; saving from the initial state does
  nothing; approving step 1 leaves the album alone.
\<close>

theorem handleSaveToAlbum_appends_witness:
  "processedImage (step3 (initialApp\<lparr>album := [[65]],
      step3 := initialStepState\<lparr>status := Done, processedImage := Some [66]\<rparr>\<rparr>)) = Some [66] \<and>
   [66] \<noteq> ([] :: jsstring) \<and>
   album (handleSaveToAlbum (initialApp\<lparr>album := [[65]],
      step3 := initialStepState\<lparr>status := Done, processedImage := Some [66]\<rparr>\<rparr>)) = [[65], [66]] \<and>
   \<not> truthy (processedImage (step3 initialApp)) \<and>
   handleSaveToAlbum initialApp = initialApp \<and>
   Approve 1 \<noteq> SaveToAlbum \<and>
   album (fire (Approve 1) initialApp) = album initialApp"
proof -
  let ?w = "initialApp\<lparr>album := [[65]],
      step3 := initialStepState\<lparr>status := Done, processedImage := Some [66]\<rparr>\<rparr>"
  have h1: "processedImage (step3 ?w) = Some [66] \<and> [66] \<noteq> ([] :: jsstring)"
    by simp
  have h2: "\<not> truthy (processedImage (step3 initialApp))"
    by (simp add: initialApp_def initialStepState_def)
  have h3: "Approve 1 \<noteq> SaveToAlbum"
    by simp
  from handleSaveToAlbum_appends [of ?w "[66]" "Approve 1"] h1
  have "handleSaveToAlbum ?w =
      ?w\<lparr>album := album ?w @ [[66]], step2 := initialStepState, step3 := initialStepState\<rparr>"
    by blast
  then have a: "album (handleSaveToAlbum ?w) = [[65], [66]]"
    by simp
  from handleSaveToAlbum_appends [of initialApp "[]" "Approve 1"] h2 h3
  have b: "handleSaveToAlbum initialApp = initialApp"
    and c: "album (fire (Approve 1) initialApp) = album initialApp"
    by blast+
  from h1 h2 h3 a b c show ?thesis by blast
qed

text \<open>
  C10. When the precondition of Process holds and the operation fails, the state after
  \<open>handleProcess\<close> has run to its end is the state before it with the status of that step
  set to \<open>error\<close> and its error message set: the original image, the processed image and
  the approval of the step, the other steps and the album are as they were. The same holds
  for the continuation alone, on the state in which the call settles.
\<close>

theorem handleProcess_failure_frame:
  "(originalImage (step1 w) = Some img \<and> img \<noteq> [] \<and>
    outcome (removeAccessories service img) = Inl e \<longrightarrow>
      fst (processAwaited service (handleProcess 1 w)) =
        w\<lparr>step1 := (step1 w)\<lparr>status := Error, error := Some (caughtMessage e)\<rparr>\<rparr>) \<and>
   (originalImage (step2 w) = Some img \<and> img \<noteq> [] \<and>
    outcome (isolateOutfit service img) = Inl e \<longrightarrow>
      fst (processAwaited service (handleProcess 2 w)) =
        w\<lparr>step2 := (step2 w)\<lparr>status := Error, error := Some (caughtMessage e)\<rparr>\<rparr>) \<and>
   (processedImage (step1 w) = Some img \<and> img \<noteq> [] \<and>
    processedImage (step2 w) = Some img2 \<and> img2 \<noteq> [] \<and>
    outcome (dressModel service img img2) = Inl e \<longrightarrow>
      fst (processAwaited service (handleProcess 3 w)) =
        w\<lparr>step3 := (step3 w)\<lparr>status := Error, error := Some (caughtMessage e)\<rparr>\<rparr>) \<and>
   processSettled SetStep1 (Inl e) w =
     w\<lparr>step1 := (step1 w)\<lparr>status := Error, error := Some (caughtMessage e)\<rparr>\<rparr> \<and>
   processSettled SetStep2 (Inl e) w =
     w\<lparr>step2 := (step2 w)\<lparr>status := Error, error := Some (caughtMessage e)\<rparr>\<rparr> \<and>
   processSettled SetStep3 (Inl e) w =
     w\<lparr>step3 := (step3 w)\<lparr>status := Error, error := Some (caughtMessage e)\<rparr>\<rparr>"
  by (simp add: handleProcess_def startProcessing_def processAwaited_def Let_def)


text \<open>
  An approved step 1 at \<open>done\<close> whose original image is no data URL: reprocessing fails with
  the format error, and the step keeps its processed image and its approval.
\<close>

theorem handleProcess_failure_frame_witness:
  "originalImage (step1 (initialApp\<lparr>step1 :=
      \<lparr>status = Done, originalImage = Some (lit ''photo.png''),
       processedImage = Some (lit ''data:image/png;base64,QUJD''), error = None,
       approved = True\<rparr>\<rparr>)) = Some (lit ''photo.png'') \<and>
   lit ''photo.png'' \<noteq> [] \<and>
   outcome (removeAccessories (\<lambda>req n. Rejected (ErrorObject [])) (lit ''photo.png'')) =
     Inl (ErrorObject formatErrorMessage) \<and>
   fst (processAwaited (\<lambda>req n. Rejected (ErrorObject []))
     (handleProcess 1 (initialApp\<lparr>step1 :=
        \<lparr>status = Done, originalImage = Some (lit ''photo.png''),
         processedImage = Some (lit ''data:image/png;base64,QUJD''), error = None,
         approved = True\<rparr>\<rparr>))) =
     initialApp\<lparr>step1 :=
        \<lparr>status = Error, originalImage = Some (lit ''photo.png''),
         processedImage = Some (lit ''data:image/png;base64,QUJD''),
         error = Some formatErrorMessage, approved = True\<rparr>\<rparr>"
proof -
  let ?s = "\<lambda>(req :: request) (n :: nat). (Rejected (ErrorObject []) :: response settled)"
  let ?w = "initialApp\<lparr>step1 :=
      \<lparr>status = Done, originalImage = Some (lit ''photo.png''),
       processedImage = Some (lit ''data:image/png;base64,QUJD''), error = None,
       approved = True\<rparr>\<rparr>"
  have h1: "originalImage (step1 ?w) = Some (lit ''photo.png'') \<and> lit ''photo.png'' \<noteq> []"
    by (simp add: lit_def)
  have h2: "outcome (removeAccessories ?s (lit ''photo.png'')) =
     Inl (ErrorObject formatErrorMessage)"
    by (simp add: removeAccessories_def fileToGenerativePart_def matchDataUrl_def
        thrownBeforeCall_def lit_def)
  from handleProcess_failure_frame
    [of ?w "lit ''photo.png''" ?s "ErrorObject formatErrorMessage"] h1 h2
  have "fst (processAwaited ?s (handleProcess 1 ?w)) =
      ?w\<lparr>step1 := (step1 ?w)\<lparr>status := Error,
        error := Some (caughtMessage (ErrorObject formatErrorMessage))\<rparr>\<rparr>"
    by blast
  then have "fst (processAwaited ?s (handleProcess 1 ?w)) =
     initialApp\<lparr>step1 :=
        \<lparr>status = Error, originalImage = Some (lit ''photo.png''),
         processedImage = Some (lit ''data:image/png;base64,QUJD''),
         error = Some formatErrorMessage, approved = True\<rparr>\<rparr>"
    by simp
  with h1 h2 show ?thesis by blast
qed

section \<open>JavaScript numbers: what the rounding is\<close>

lemma bitLength_bounds:
  "0 < n \<Longrightarrow> 2 ^ (bitLength n - 1) \<le> n \<and> n < 2 ^ bitLength n"
proof (induction n rule: bitLength.induct)
  case (1 n)
  show ?case
  proof (cases "n div 2 \<le> 0")
    case True
    with "1.prems" have "n = 1" by linarith
    then show ?thesis
      by (simp add: bitLength.simps [of 1] bitLength.simps [of 0])
  next
    case False
    then have pos: "0 < n div 2" by simp
    with "1.IH" "1.prems"
    have ih: "2 ^ (bitLength (n div 2) - 1) \<le> n div 2" "n div 2 < 2 ^ bitLength (n div 2)"
      by simp_all
    have b: "bitLength n = Suc (bitLength (n div 2))"
      using "1.prems" by (subst bitLength.simps) simp
    have "0 < bitLength (n div 2)"
      using pos by (subst bitLength.simps) simp
    then obtain k where k: "bitLength (n div 2) = Suc k"
      by (cases "bitLength (n div 2)") simp_all
    from ih k have "2 * 2 ^ k \<le> 2 * (n div 2)" by simp
    also have "\<dots> \<le> n" by simp
    finally have lower: "2 ^ (bitLength n - 1) \<le> n" by (simp add: b k)
    from ih have "n div 2 + 1 \<le> 2 ^ bitLength (n div 2)" by simp
    then have "2 * (n div 2) + 2 \<le> 2 * 2 ^ bitLength (n div 2)" by simp
    moreover have "n < 2 * (n div 2) + 2" by presburger
    ultimately have "n < 2 ^ bitLength n" by (simp add: b)
    with lower show ?thesis by simp
  qed
qed

lemma roundHalfEven_nearest: "\<bar>of_int (roundHalfEven y) - y\<bar> \<le> 1 / 2"
proof -
  have "of_int \<lfloor>y\<rfloor> \<le> y" "y < of_int \<lfloor>y\<rfloor> + 1"
    by linarith+
  then show ?thesis
    by (auto simp: roundHalfEven_def Let_def)
qed

lemma roundHalfEven_of_int [simp]: "roundHalfEven (of_int k) = k"
  by (simp add: roundHalfEven_def)

lemma exponentOf_bounds:
  assumes "0 < x"
  shows "2 powi exponentOf x \<le> x \<and> x < 2 powi (exponentOf x + 1)"
proof (cases "1 \<le> x")
  case True
  define n where "n = \<lfloor>x\<rfloor>"
  have n: "0 < n" "of_int n \<le> x" "x < of_int n + 1"
    using True by (simp_all add: n_def) linarith+
  from bitLength_bounds [OF n(1)]
  have b: "2 ^ (bitLength n - 1) \<le> n" "n < 2 ^ bitLength n" by simp_all
  have bpos: "0 < bitLength n"
    using n(1) by (subst bitLength.simps) simp
  have e: "exponentOf x = int (bitLength n) - 1"
    using True by (simp add: exponentOf_def n_def)
  have e': "exponentOf x = int (bitLength n - 1)"
    using bpos e by simp
  have "(2::rat) powi exponentOf x = 2 ^ (bitLength n - 1)"
    unfolding e' by (simp add: power_int_def)
  also have "\<dots> = of_int (2 ^ (bitLength n - 1))" by simp
  also have "\<dots> \<le> of_int n" using b(1) by (simp only: of_int_le_iff)
  finally have lower: "2 powi exponentOf x \<le> x" using n(2) by simp
  have "n + 1 \<le> 2 ^ bitLength n" using b(2) by simp
  then have "(of_int (n + 1) :: rat) \<le> of_int (2 ^ bitLength n)" by (simp only: of_int_le_iff)
  then have "x < 2 ^ bitLength n" using n(3) by simp
  moreover have "(2::rat) powi (exponentOf x + 1) = 2 ^ bitLength n"
    unfolding e by (simp add: power_int_def)
  ultimately show ?thesis using lower by simp
next
  case False
  then have x1: "x < 1" by simp
  define n where "n = \<lceil>1 / x\<rceil> - 1"
  have "1 < 1 / x" using assms x1 by simp
  then have n: "0 < n" "of_int n < 1 / x" "1 / x \<le> of_int n + 1"
    by (simp_all add: n_def) linarith+
  from bitLength_bounds [OF n(1)]
  have b: "2 ^ (bitLength n - 1) \<le> n" "n < 2 ^ bitLength n" by simp_all
  have bpos: "0 < bitLength n"
    using n(1) by (subst bitLength.simps) simp
  have e: "exponentOf x = - int (bitLength n)"
    using False by (simp add: exponentOf_def n_def)
  have "n + 1 \<le> 2 ^ bitLength n" using b(2) by simp
  then have "(of_int (n + 1) :: rat) \<le> of_int (2 ^ bitLength n)" by (simp only: of_int_le_iff)
  then have "1 / x \<le> 2 ^ bitLength n" using n(3) by simp
  then have "1 \<le> 2 ^ bitLength n * x" using assms by (simp add: field_simps)
  then have "1 / 2 ^ bitLength n \<le> x" by (simp add: field_simps)
  moreover have "(2::rat) powi exponentOf x = 1 / 2 ^ bitLength n"
    unfolding e by (simp add: power_int_def field_simps)
  ultimately have lower: "2 powi exponentOf x \<le> x" by simp
  have "(of_int (2 ^ (bitLength n - 1)) :: rat) \<le> of_int n" using b(1) by (simp only: of_int_le_iff)
  then have "(2::rat) ^ (bitLength n - 1) \<le> of_int n" by simp
  then have "2 ^ (bitLength n - 1) < 1 / x" using n(2) by (rule order_le_less_trans)
  then have "2 ^ (bitLength n - 1) * x < 1" using assms by (simp add: field_simps)
  then have "x < 1 / 2 ^ (bitLength n - 1)" by (simp add: field_simps)
  moreover have "(2::rat) powi (exponentOf x + 1) = 1 / 2 ^ (bitLength n - 1)"
  proof -
    obtain k where k: "bitLength n = Suc k"
      using bpos by (cases "bitLength n") simp_all
    then have "exponentOf x + 1 = - int k" using e by simp
    then have "(2::rat) powi (exponentOf x + 1) = 1 / 2 ^ k"
      by (simp add: power_int_minus field_simps)
    then show ?thesis using k by simp
  qed
  ultimately show ?thesis using lower by simp
qed

lemma toDouble_nearest:
  assumes "toDouble x = Finite r"
  shows "\<bar>r - x\<bar> \<le> 2 powi (max (exponentOf \<bar>x\<bar>) (- 1022) - 52) / 2"
proof -
  define ulp :: rat where "ulp = 2 powi (max (exponentOf \<bar>x\<bar>) (- 1022) - 52)"
  have pos: "0 < ulp" by (simp add: ulp_def)
  from assms have r: "r = of_int (roundHalfEven (x / ulp)) * ulp"
    by (simp add: toDouble_def Let_def ulp_def split: if_splits)
  have eq: "\<bar>r - x\<bar> = \<bar>of_int (roundHalfEven (x / ulp)) - x / ulp\<bar> * ulp"
  proof -
    have "(of_int (roundHalfEven (x / ulp)) - x / ulp) * ulp = r - x"
      using pos by (simp add: r field_simps)
    then have "\<bar>r - x\<bar> = \<bar>(of_int (roundHalfEven (x / ulp)) - x / ulp) * ulp\<bar>"
      by simp
    also have "\<dots> = \<bar>of_int (roundHalfEven (x / ulp)) - x / ulp\<bar> * ulp"
      using pos by (simp add: abs_mult)
    finally show ?thesis .
  qed
  have "\<bar>of_int (roundHalfEven (x / ulp)) - x / ulp\<bar> * ulp \<le> 1 / 2 * ulp"
    using roundHalfEven_nearest [of "x / ulp"] pos by (intro mult_right_mono) simp_all
  then have "\<bar>r - x\<bar> \<le> ulp / 2"
    unfolding eq by simp
  then show ?thesis by (simp only: ulp_def)
qed

lemma roundHalfEven_floor: "\<lfloor>y\<rfloor> \<le> roundHalfEven y \<and> roundHalfEven y \<le> \<lfloor>y\<rfloor> + 1"
  by (simp add: roundHalfEven_def Let_def)

lemma two_powi_le_imp: "(2::rat) powi a \<le> 2 powi b \<Longrightarrow> a \<le> b"
proof (rule ccontr)
  assume le: "(2::rat) powi a \<le> 2 powi b" and "\<not> a \<le> b"
  then have "b < a" by simp
  then have "(2::rat) powi b < 2 powi a" by (rule power_int_strict_increasing) simp
  with le show False by simp
qed

lemma two_powi_less_imp: "(2::rat) powi a < 2 powi b \<Longrightarrow> a < b"
proof (rule ccontr)
  assume less: "(2::rat) powi a < 2 powi b" and "\<not> a < b"
  then have "b \<le> a" by simp
  then have "(2::rat) powi b \<le> 2 powi a" by (rule power_int_increasing) simp
  with less show False by simp
qed

text \<open>
  Rounding a positive number between the smallest normal double and \<open>2 ^ 1023\<close> gives a
  finite positive double within a relative error of \<open>2 ^ -53\<close>.
\<close>

lemma toDouble_normal:
  assumes lo: "2 powi (- 1022) \<le> x" and hi: "x < 2 powi 1023"
  shows "\<exists>r. toDouble x = Finite r \<and> 0 < r \<and> \<bar>r - x\<bar> \<le> x / 2 ^ 53"
proof -
  have xpos: "0 < x"
    using lo by (rule less_le_trans [rotated]) simp
  define e where "e = exponentOf x"
  have b: "2 powi e \<le> x" "x < 2 powi (e + 1)"
    using exponentOf_bounds [OF xpos] by (simp_all add: e_def)
  have "(2::rat) powi (- 1022) < 2 powi (e + 1)"
    using lo b(2) by (rule le_less_trans)
  then have e_lo: "- 1022 \<le> e"
    using two_powi_less_imp [of "- 1022" "e + 1"] by simp
  have "(2::rat) powi e < 2 powi 1023"
    using b(1) hi by (rule le_less_trans)
  then have e_hi: "e < 1023"
    by (rule two_powi_less_imp)
  define ulp :: rat where "ulp = 2 powi (e - 52)"
  have upos: "0 < ulp" by (simp add: ulp_def)
  have ulp52: "2 ^ 52 * ulp = 2 powi e"
    by (simp add: ulp_def power_int_diff)
  have ulp53: "2 ^ 53 * ulp = 2 powi (e + 1)"
    by (simp add: ulp_def power_int_diff power_int_add)
  define n where "n = roundHalfEven (x / ulp)"
  define r :: rat where "r = of_int n * ulp"
  have y_lo: "2 ^ 52 \<le> x / ulp"
    using b(1) upos ulp52 by (simp add: pos_le_divide_eq)
  have y_hi: "x / ulp < 2 ^ 53"
    using b(2) upos ulp53 by (simp add: pos_divide_less_eq)
  have "(2 ^ 52 :: int) \<le> \<lfloor>x / ulp\<rfloor>"
    using y_lo by (simp add: le_floor_iff)
  then have n_lo: "2 ^ 52 \<le> n"
    unfolding n_def using roundHalfEven_floor [of "x / ulp", THEN conjunct1] by (rule order_trans)
  have "\<lfloor>x / ulp\<rfloor> < (2 ^ 53 :: int)"
    using y_hi by (simp add: floor_less_iff)
  then have "\<lfloor>x / ulp\<rfloor> + 1 \<le> (2 ^ 53 :: int)"
    by (simp only: zless_imp_add1_zle)
  with roundHalfEven_floor [of "x / ulp", THEN conjunct2] have n_hi: "n \<le> 2 ^ 53"
    unfolding n_def by (rule order_trans)
  have "(of_int (2 ^ 52) :: rat) \<le> of_int n"
    using n_lo by (simp only: of_int_le_iff)
  then have "2 ^ 52 * ulp \<le> r"
    using upos by (simp add: r_def)
  then have r_lo: "2 powi e \<le> r" by (simp only: ulp52)
  then have rpos: "0 < r"
    by (rule less_le_trans [rotated]) simp
  have "(of_int n :: rat) \<le> of_int (2 ^ 53)"
    using n_hi by (simp only: of_int_le_iff)
  then have "r \<le> 2 ^ 53 * ulp"
    using upos by (simp add: r_def)
  then have r_hi: "r \<le> 2 powi (e + 1)" by (simp only: ulp53)
  have "(2::rat) powi (e + 1) \<le> 2 powi 1023"
    using e_hi by (intro power_int_increasing) simp_all
  with r_hi have "r \<le> 2 powi 1023" by simp
  moreover have "2 powi exponentOf r \<le> r"
    using exponentOf_bounds [OF rpos] by simp
  ultimately have "(2::rat) powi exponentOf r \<le> 2 powi 1023" by simp
  then have "exponentOf r \<le> 1023" by (rule two_powi_le_imp)
  then have fin: "toDouble x = Finite r"
    using xpos rpos e_lo
    by (simp add: toDouble_def Let_def e_def [symmetric] max_absorb1 ulp_def [symmetric]
        n_def [symmetric] r_def [symmetric])
  from toDouble_nearest [OF fin]
  have "\<bar>r - x\<bar> \<le> ulp / 2"
    using xpos e_lo by (simp add: e_def [symmetric] max_absorb1 ulp_def [symmetric])
  also have "ulp / 2 = 2 powi e / 2 ^ 53"
    using ulp53 by (simp add: power_int_add field_simps)
  also have "\<dots> \<le> x / 2 ^ 53"
    using b(1) by (simp add: divide_right_mono)
  finally have "\<bar>r - x\<bar> \<le> x / 2 ^ 53" .
  with fin rpos show ?thesis by blast
qed


lemma toDouble_moderate:
  assumes "1 / 2 ^ 60 \<le> x" and "x < 2 ^ 60"
  shows "\<exists>r. toDouble x = Finite r \<and> 0 < r \<and> \<bar>r - x\<bar> \<le> x / 2 ^ 53"
proof (rule toDouble_normal)
  have "(2::rat) powi (- 1022) \<le> 2 powi (- 60)"
    by (intro power_int_increasing) simp_all
  also have "(2::rat) powi (- 60) = 1 / 2 ^ 60"
    by (simp add: power_int_minus_divide)
  finally show "2 powi (- 1022) \<le> x" using assms(1) by simp
  have "(2::rat) powi 60 \<le> 2 powi 1023"
    by (intro power_int_increasing) simp_all
  then have "(2::rat) ^ 60 \<le> 2 powi 1023" by simp
  with assms(2) show "x < 2 powi 1023" by simp
qed

text \<open>The two roundings of the height, and the two more of the second row.\<close>

lemma height_accuracy:
  fixes W D :: rat
  assumes W: "1 \<le> W" "W < 2 ^ 32" and D: "1 \<le> D" "D < 2 ^ 32"
  shows "\<exists>h. ddiv (Finite 1120) (ddiv (Finite W) (Finite D)) = Finite h \<and> 0 < h \<and>
              \<bar>h - 1120 / (W / D)\<bar> \<le> 1120 / (W / D) / 2 ^ 51"
proof -
  define q where "q = W / D"
  define E where "E = 1120 / q"
  have qpos: "0 < q" using W D by (simp add: q_def)
  have q_lo: "1 / 2 ^ 32 \<le> q"
  proof -
    have "D \<le> 2 ^ 32 * 1" using D by simp
    also have "(2 ^ 32 :: rat) * 1 \<le> 2 ^ 32 * W" using W by (intro mult_left_mono) simp_all
    finally have "D \<le> 2 ^ 32 * W" .
    then show ?thesis using D by (simp add: q_def field_simps)
  qed
  have q_hi: "q < 2 ^ 32"
  proof -
    have "W < 2 ^ 32 * 1" using W by simp
    also have "(2 ^ 32 :: rat) * 1 \<le> 2 ^ 32 * D" using D by (intro mult_left_mono) simp_all
    finally have "W < 2 ^ 32 * D" .
    then show ?thesis using D by (simp add: q_def field_simps)
  qed
  have "1 / 2 ^ 60 \<le> q" using q_lo by simp
  moreover have "q < 2 ^ 60" using q_hi by simp
  ultimately obtain a where a: "toDouble q = Finite a" "0 < a" "\<bar>a - q\<bar> \<le> q / 2 ^ 53"
    using toDouble_moderate by blast
  have aspect: "ddiv (Finite W) (Finite D) = Finite a"
    using D a(1) by (simp add: q_def)
  have "q / 2 ^ 53 \<le> q / 2"
    using qpos by (intro divide_left_mono) simp_all
  with a(3) have "\<bar>a - q\<bar> \<le> q / 2" by (rule order_trans)
  then have a_lo: "q / 2 \<le> a" and a_hi: "a \<le> 2 * q"
    using qpos by linarith+
  define t where "t = 1120 / a"
  have tpos: "0 < t" using a(2) by (simp add: t_def)
  have Epos: "0 < E" using qpos by (simp add: E_def)
  have t_E: "t \<le> 2 * E" and E_t: "E \<le> 2 * t"
    using a_lo a_hi a(2) qpos by (simp_all add: t_def E_def field_simps)
  have E_lo: "1120 / 2 ^ 32 \<le> E" and E_hi: "E \<le> 1120 * 2 ^ 32"
    using q_lo q_hi qpos by (simp_all add: E_def field_simps)
  have "1 / 2 ^ 60 \<le> t" using E_lo E_t by simp
  moreover have "t < 2 ^ 60" using E_hi t_E by simp
  ultimately obtain h where h: "toDouble t = Finite h" "0 < h" "\<bar>h - t\<bar> \<le> t / 2 ^ 53"
    using toDouble_moderate by blast
  have height: "ddiv (Finite 1120) (Finite a) = Finite h"
    using a(2) h(1) by (simp add: t_def)
  have "t - E = t * ((q - a) / q)"
    using a(2) qpos by (simp add: t_def E_def field_simps)
  then have "\<bar>t - E\<bar> = t * (\<bar>a - q\<bar> / q)"
    using tpos qpos by (simp add: abs_mult abs_minus_commute)
  also have "\<dots> \<le> t * (1 / 2 ^ 53)"
  proof (rule mult_left_mono)
    show "\<bar>a - q\<bar> / q \<le> 1 / 2 ^ 53"
      using a(3) qpos by (simp add: field_simps)
    show "0 \<le> t" using tpos by simp
  qed
  finally have tE: "\<bar>t - E\<bar> \<le> t / 2 ^ 53" by simp
  have "\<bar>h - E\<bar> \<le> \<bar>h - t\<bar> + \<bar>t - E\<bar>" by simp
  also have "\<dots> \<le> 2 * (t / 2 ^ 53)" using h(3) tE by simp
  also have "\<dots> \<le> 2 * (2 * E / 2 ^ 53)" using t_E by (simp add: divide_right_mono)
  also have "\<dots> = E / 2 ^ 51" by simp
  finally have "\<bar>h - E\<bar> \<le> E / 2 ^ 51" .
  with aspect height h(2) show ?thesis
    by (simp add: E_def q_def)
qed


lemma offset_accuracy:
  fixes W D :: rat
  assumes W: "1 \<le> W" "W < 2 ^ 32" and D: "1 \<le> D" "D < 2 ^ 32"
  shows "\<exists>h y. ddiv (Finite 1120) (ddiv (Finite W) (Finite D)) = Finite h \<and>
           dadd (Finite 430) (dadd (Finite h) (Finite 80)) = Finite y \<and>
           \<bar>y - (350 + 80 + 1120 / (W / D) + 80)\<bar> \<le> (350 + 80 + 1120 / (W / D) + 80) / 2 ^ 49"
proof -
  define E where "E = 1120 / (W / D)"
  obtain h where h: "ddiv (Finite 1120) (ddiv (Finite W) (Finite D)) = Finite h" "0 < h"
    "\<bar>h - E\<bar> \<le> E / 2 ^ 51"
    using height_accuracy [OF assms] unfolding E_def by blast
  have Epos: "0 < E" using W D by (simp add: E_def)
  have E_hi: "E < 1120 * 2 ^ 32"
  proof -
    have "D \<le> D * W" using W D by (simp add: mult_le_cancel_left1)
    then have "D / W \<le> D" using W by (simp add: field_simps)
    then have "1120 * (D / W) < 1120 * 2 ^ 32" using D by simp
    then show ?thesis by (simp add: E_def)
  qed
  have "E / 2 ^ 51 \<le> E" using Epos by (simp add: field_simps)
  with h(3) have h_hi: "h \<le> 2 * E" by linarith
  define x1 where "x1 = h + 80"
  have x1: "80 \<le> x1" "x1 \<le> 2 * E + 80" using h(2) h_hi by (simp_all add: x1_def)
  have "1 / 2 ^ 60 \<le> x1" using x1(1) by simp
  moreover have "x1 < 2 ^ 60" using x1(2) E_hi by simp
  ultimately obtain s where s: "toDouble x1 = Finite s" "0 < s" "\<bar>s - x1\<bar> \<le> x1 / 2 ^ 53"
    using toDouble_moderate by blast
  have "x1 / 2 ^ 53 \<le> x1" using x1(1) by (simp add: field_simps)
  with s(3) have s_hi: "s \<le> 2 * x1" by linarith
  define x2 where "x2 = 430 + s"
  have x2: "430 \<le> x2" "x2 \<le> 590 + 4 * E" using s(2) s_hi x1(2) by (simp_all add: x2_def)
  have "1 / 2 ^ 60 \<le> x2" using x2(1) by simp
  moreover have "x2 < 2 ^ 60" using x2(2) E_hi by simp
  ultimately obtain y where y: "toDouble x2 = Finite y" "\<bar>y - x2\<bar> \<le> x2 / 2 ^ 53"
    using toDouble_moderate by blast
  have sum: "dadd (Finite 430) (dadd (Finite h) (Finite 80)) = Finite y"
    using s(1) y(1) by (simp add: x1_def x2_def)
  define c :: rat where "c = 2 ^ 53"
  have cpos: "0 < c" by (simp add: c_def)
  have c51: "(2::rat) ^ 51 = 2 ^ 53 / 4" and c49: "c / 16 = 2 ^ 49"
    by (simp_all add: c_def)
  have "y - (510 + E) = (y - x2) + (s - x1) + (h - E)"
    by (simp add: x1_def x2_def)
  then have "\<bar>y - (510 + E)\<bar> \<le> \<bar>y - x2\<bar> + \<bar>s - x1\<bar> + \<bar>h - E\<bar>"
    by linarith
  also have "\<dots> \<le> x2 / 2 ^ 53 + x1 / 2 ^ 53 + E / 2 ^ 51"
    using y(2) s(3) h(3) by linarith
  finally have "\<bar>y - (510 + E)\<bar> \<le> x2 / c + x1 / c + E / (c / 4)"
    by (simp only: c_def c51)
  also have "x2 / c + x1 / c + E / (c / 4) = (x2 + x1 + 4 * E) / c"
    using cpos by (simp add: field_simps)
  also have "\<dots> \<le> (16 * (510 + E)) / c"
  proof (rule divide_right_mono)
    have "x2 + x1 + 4 * E \<le> (590 + 4 * E) + (2 * E + 80) + 4 * E"
      using x1(2) x2(2) by (intro add_mono) simp_all
    also have "\<dots> \<le> 16 * (510 + E)" using Epos by (simp add: algebra_simps)
    finally show "x2 + x1 + 4 * E \<le> 16 * (510 + E)" .
    show "0 \<le> c" using cpos by simp
  qed
  also have "\<dots> = (510 + E) / (c / 16)"
    using cpos by (simp add: field_simps)
  finally have "\<bar>y - (510 + E)\<bar> \<le> (510 + E) / 2 ^ 49"
    by (simp only: c49)
  then have "\<bar>y - (350 + 80 + E + 80)\<bar> \<le> (350 + 80 + E + 80) / 2 ^ 49"
    by simp
  with h(1) sum show ?thesis
    unfolding E_def by blast
qed

section \<open>The layout: proofs\<close>

lemma toDouble_consts:
  "toDouble 0 = Finite 0" "toDouble 1 = Finite 1" "toDouble 80 = Finite 80"
  "toDouble 160 = Finite 160" "toDouble 430 = Finite 430" "toDouble 1120 = Finite 1120"
  "toDouble 1200 = Finite 1200" "toDouble 1280 = Finite 1280" "toDouble 2240 = Finite 2240"
  "toDouble 2320 = Finite 2320"
  by code_simp+

lemma cellWidth_value: "cellWidth = Finite 1120"
  by (simp add: cellWidth_def contentWidth_def canvasWidth_def gridPadding_def gridCols_def
      toDouble_consts)

lemma column_value:
  "dadd gridPadding (dmul (Finite (of_nat (i mod 2))) (dadd cellWidth gridPadding)) =
     Finite (80 + of_nat (i mod 2) * (1120 + 80))"
proof -
  consider "i mod 2 = 0" | "i mod 2 = 1" by linarith
  then show ?thesis
    by cases (simp_all add: cellWidth_value gridPadding_def toDouble_consts)
qed

lemma yOffsetOfRow_0: "yOffsetOfRow imgs 0 = Finite 430"
  by (simp add: yOffsetOfRow_def contentTopMargin_def gridPadding_def toDouble_consts)

lemma yOffsetOfRow_Suc:
  "yOffsetOfRow imgs (Suc r) =
     dadd (yOffsetOfRow imgs r)
       (dadd (ddiv cellWidth (aspectRatio (imgs ! (r * gridCols)))) gridPadding)"
  by (simp add: yOffsetOfRow_def)

lemma yOffsetOfRow_1:
  "yOffsetOfRow imgs 1 =
     dadd (Finite 430) (dadd (ddiv cellWidth (aspectRatio (imgs ! 0))) (Finite 80))"
  using yOffsetOfRow_Suc [of imgs 0] by (simp add: yOffsetOfRow_0 gridPadding_def)

lemma albumLayout_nth:
  "i < length imgs \<Longrightarrow>
   albumLayout imgs ! i =
     \<lparr>px = Finite (80 + of_nat (i mod 2) * (1120 + 80)), py = yOffsetOfRow imgs (i div 2),
      drawWidth = Finite 1120, drawHeight = ddiv cellWidth (aspectRatio (imgs ! i))\<rparr>"
  using column_value [of i]
  by (simp add: albumLayout_def placeImage_def Let_def gridCols_def cellWidth_value)

lemma rows_value: "rows imgs = int ((length imgs + 1) div 2)"
proof -
  have "rows imgs = \<lceil>(of_int (int (length imgs)) :: rat) / of_int 2\<rceil>"
    by (simp add: rows_def gridCols_def)
  also have "\<dots> = - (- int (length imgs) div 2)"
    by (rule ceiling_divide_eq_div)
  also have "\<dots> = int ((length imgs + 1) div 2)"
    by (simp add: zdiv_int)
  finally show ?thesis .
qed

lemma fromWord_values:
  "fromWord 1 = Finite 1" "fromWord 3 = Finite 3" "fromWord 4 = Finite 4"
  "fromWord 12 = Finite 12"
  by (simp_all add: fromWord_def)

lemma fromWord_range:
  "w \<noteq> 0 \<Longrightarrow> 1 \<le> (of_nat (unat w) :: rat) \<and> (of_nat (unat (w :: 32 word)) :: rat) < 2 ^ 32"
proof -
  assume "w \<noteq> 0"
  then have "0 < unat w" by (simp add: unat_gt_0)
  then have "1 \<le> unat w" by simp
  then have "(of_nat 1 :: rat) \<le> of_nat (unat w)" by (simp only: of_nat_le_iff)
  then have lo: "1 \<le> (of_nat (unat w) :: rat)" by simp
  have "unat w < 2 ^ 32" using unsigned_less [of w, where ?'a = nat] by simp
  then have "(of_nat (unat w) :: rat) < of_nat (2 ^ 32)" by (simp only: of_nat_less_iff)
  with lo show ?thesis by simp
qed

text \<open>
  C9 (as amended). The cell width is \<open>(2480 - 3 * 80) / 2\<close>, exactly; the image at index \<open>i\<close>
  is drawn at \<open>x = 80 + (i mod 2) * (cellWidth + 80)\<close>, exactly, with the cell width as its
  width; the row count is the number of images divided by 2 and rounded up, 2 for three
  images. The height of each image is the cell width divided by its aspect ratio in
  double arithmetic: the aspect ratio is the quotient of the natural width and height
  rounded to a double, and the height the quotient of the cell width and that double,
  rounded again; for an image of non-zero width and height it is within a relative error
  of \<open>2 ^ -51\<close> of the exact quotient \<open>1120 / (width / height)\<close>. The first row is at
  \<open>y = 350 + 80\<close>; the second row is at the double sum of \<open>350 + 80\<close> and of the double sum of
  the height of the image at index 0 and \<open>80\<close>, which for a first image of non-zero width
  and height is within a relative error of \<open>2 ^ -49\<close> of the exact
  \<open>350 + 80 + 1120 / (width / height) + 80\<close>.
\<close>

theorem albumLayout_grid:
  "cellWidth = Finite ((2480 - 3 * 80) / 2) \<and>
   length (albumLayout imgs) = length imgs \<and>
   rows imgs = int ((length imgs + 1) div 2) \<and>
   (length imgs = 3 \<longrightarrow> rows imgs = 2 \<and> rows imgs = \<lceil>(3 :: rat) / 2\<rceil>) \<and>
   (\<forall>i < length imgs.
      px (albumLayout imgs ! i) = Finite (80 + of_nat (i mod 2) * ((2480 - 3 * 80) / 2 + 80)) \<and>
      drawWidth (albumLayout imgs ! i) = cellWidth \<and>
      drawHeight (albumLayout imgs ! i) =
        ddiv cellWidth
          (ddiv (Finite (of_nat (unat (naturalWidth (imgs ! i)))))
             (Finite (of_nat (unat (naturalHeight (imgs ! i)))))) \<and>
      (naturalWidth (imgs ! i) \<noteq> 0 \<and> naturalHeight (imgs ! i) \<noteq> 0 \<longrightarrow>
         (\<exists>h. drawHeight (albumLayout imgs ! i) = Finite h \<and>
              \<bar>h - 1120 / (of_nat (unat (naturalWidth (imgs ! i))) /
                            of_nat (unat (naturalHeight (imgs ! i))))\<bar> \<le>
              1120 / (of_nat (unat (naturalWidth (imgs ! i))) /
                      of_nat (unat (naturalHeight (imgs ! i)))) / 2 ^ 51)) \<and>
      (i div 2 = 0 \<longrightarrow> py (albumLayout imgs ! i) = Finite (350 + 80)) \<and>
      (i div 2 = 1 \<longrightarrow>
         py (albumLayout imgs ! i) =
           dadd (Finite (350 + 80)) (dadd (drawHeight (albumLayout imgs ! 0)) (Finite 80))) \<and>
      (i div 2 = 1 \<and> naturalWidth (imgs ! 0) \<noteq> 0 \<and> naturalHeight (imgs ! 0) \<noteq> 0 \<longrightarrow>
         (\<exists>y. py (albumLayout imgs ! i) = Finite y \<and>
              \<bar>y - (350 + 80 + 1120 / (of_nat (unat (naturalWidth (imgs ! 0))) /
                                         of_nat (unat (naturalHeight (imgs ! 0)))) + 80)\<bar> \<le>
              (350 + 80 + 1120 / (of_nat (unat (naturalWidth (imgs ! 0))) /
                                  of_nat (unat (naturalHeight (imgs ! 0)))) + 80) / 2 ^ 49)))"
proof (intro conjI impI allI)
  show "cellWidth = Finite ((2480 - 3 * 80) / 2)"
    by (simp add: cellWidth_value)
  show "length (albumLayout imgs) = length imgs"
    by (simp add: albumLayout_def)
  show "rows imgs = int ((length imgs + 1) div 2)"
    by (rule rows_value)
  show "rows imgs = 2" if "length imgs = 3"
    using that by (simp add: rows_value)
  show "rows imgs = \<lceil>(3 :: rat) / 2\<rceil>" if "length imgs = 3"
    using that by (simp add: rows_def gridCols_def)
next
  fix i
  assume i: "i < length imgs"
  have height: "drawHeight (albumLayout imgs ! j) =
        ddiv (Finite 1120)
          (ddiv (Finite (of_nat (unat (naturalWidth (imgs ! j)))))
             (Finite (of_nat (unat (naturalHeight (imgs ! j))))))" if "j < length imgs" for j
    using that by (simp add: albumLayout_nth aspectRatio_def fromWord_def cellWidth_value)
  from i have zero: "0 < length imgs" by (cases imgs) simp_all
  show "px (albumLayout imgs ! i) = Finite (80 + of_nat (i mod 2) * ((2480 - 3 * 80) / 2 + 80))"
    using i by (simp add: albumLayout_nth)
  show "drawWidth (albumLayout imgs ! i) = cellWidth"
    using i by (simp add: albumLayout_nth cellWidth_value)
  show "drawHeight (albumLayout imgs ! i) =
        ddiv cellWidth
          (ddiv (Finite (of_nat (unat (naturalWidth (imgs ! i)))))
             (Finite (of_nat (unat (naturalHeight (imgs ! i))))))"
    using height [OF i] by (simp only: cellWidth_value)
  show "\<exists>h. drawHeight (albumLayout imgs ! i) = Finite h \<and>
              \<bar>h - 1120 / (of_nat (unat (naturalWidth (imgs ! i))) /
                            of_nat (unat (naturalHeight (imgs ! i))))\<bar> \<le>
              1120 / (of_nat (unat (naturalWidth (imgs ! i))) /
                      of_nat (unat (naturalHeight (imgs ! i)))) / 2 ^ 51"
    if "naturalWidth (imgs ! i) \<noteq> 0 \<and> naturalHeight (imgs ! i) \<noteq> 0"
  proof -
    from that fromWord_range
    have "1 \<le> (of_nat (unat (naturalWidth (imgs ! i))) :: rat)"
      "(of_nat (unat (naturalWidth (imgs ! i))) :: rat) < 2 ^ 32"
      "1 \<le> (of_nat (unat (naturalHeight (imgs ! i))) :: rat)"
      "(of_nat (unat (naturalHeight (imgs ! i))) :: rat) < 2 ^ 32"
      by blast+
    from height_accuracy [OF this] show ?thesis
      unfolding height [OF i] by blast
  qed
  show "py (albumLayout imgs ! i) = Finite (350 + 80)" if "i div 2 = 0"
    using i that by (simp add: albumLayout_nth yOffsetOfRow_0)
  have second: "py (albumLayout imgs ! i) =
      dadd (Finite 430) (dadd (drawHeight (albumLayout imgs ! 0)) (Finite 80))" if "i div 2 = 1"
  proof -
    have "drawHeight (albumLayout imgs ! 0) = ddiv cellWidth (aspectRatio (imgs ! 0))"
      using zero by (simp only: albumLayout_nth placement.simps)
    then show ?thesis
      using i that yOffsetOfRow_1 [of imgs] by (simp add: albumLayout_nth)
  qed
  show "py (albumLayout imgs ! i) =
      dadd (Finite (350 + 80)) (dadd (drawHeight (albumLayout imgs ! 0)) (Finite 80))"
    if "i div 2 = 1"
    using second [OF that] by simp
  show "\<exists>y. py (albumLayout imgs ! i) = Finite y \<and>
              \<bar>y - (350 + 80 + 1120 / (of_nat (unat (naturalWidth (imgs ! 0))) /
                                         of_nat (unat (naturalHeight (imgs ! 0)))) + 80)\<bar> \<le>
              (350 + 80 + 1120 / (of_nat (unat (naturalWidth (imgs ! 0))) /
                                  of_nat (unat (naturalHeight (imgs ! 0)))) + 80) / 2 ^ 49"
    if "i div 2 = 1 \<and> naturalWidth (imgs ! 0) \<noteq> 0 \<and> naturalHeight (imgs ! 0) \<noteq> 0"
  proof -
    from that fromWord_range
    have "1 \<le> (of_nat (unat (naturalWidth (imgs ! 0))) :: rat)"
      "(of_nat (unat (naturalWidth (imgs ! 0))) :: rat) < 2 ^ 32"
      "1 \<le> (of_nat (unat (naturalHeight (imgs ! 0))) :: rat)"
      "(of_nat (unat (naturalHeight (imgs ! 0))) :: rat) < 2 ^ 32"
      by blast+
    from offset_accuracy [OF this] obtain h y where
      hy: "ddiv (Finite 1120)
             (ddiv (Finite (of_nat (unat (naturalWidth (imgs ! 0)))))
                (Finite (of_nat (unat (naturalHeight (imgs ! 0)))))) = Finite h"
        "dadd (Finite 430) (dadd (Finite h) (Finite 80)) = Finite y"
        "\<bar>y - (350 + 80 + 1120 / (of_nat (unat (naturalWidth (imgs ! 0))) /
                                         of_nat (unat (naturalHeight (imgs ! 0)))) + 80)\<bar> \<le>
              (350 + 80 + 1120 / (of_nat (unat (naturalWidth (imgs ! 0))) /
                                  of_nat (unat (naturalHeight (imgs ! 0)))) + 80) / 2 ^ 49"
      by blast
    have "py (albumLayout imgs ! i) = Finite y"
      unfolding second [OF that [THEN conjunct1]] height [OF zero] hy(1) by (rule hy(2))
    with hy(3) show ?thesis by (intro exI conjI)
  qed
qed

text \<open>
  Three images of 3 by 4: two rows, the second column at 1280, the third image back in
  the first column; the heights are the double 1493.3333333333333 and the second row is at
  the double 2003.3333333333333, both within the stated error of the exact values.
\<close>

theorem albumLayout_grid_witness:
  "rows [\<lparr>naturalWidth = 3, naturalHeight = 4\<rparr>, \<lparr>naturalWidth = 3, naturalHeight = 4\<rparr>,
         \<lparr>naturalWidth = 3, naturalHeight = 4\<rparr>] = 2 \<and>
   px (albumLayout [\<lparr>naturalWidth = 3, naturalHeight = 4\<rparr>, \<lparr>naturalWidth = 3, naturalHeight = 4\<rparr>,
         \<lparr>naturalWidth = 3, naturalHeight = 4\<rparr>] ! 1) = Finite 1280 \<and>
   px (albumLayout [\<lparr>naturalWidth = 3, naturalHeight = 4\<rparr>, \<lparr>naturalWidth = 3, naturalHeight = 4\<rparr>,
         \<lparr>naturalWidth = 3, naturalHeight = 4\<rparr>] ! 2) = Finite 80 \<and>
   drawHeight (albumLayout [\<lparr>naturalWidth = 3, naturalHeight = 4\<rparr>,
         \<lparr>naturalWidth = 3, naturalHeight = 4\<rparr>, \<lparr>naturalWidth = 3, naturalHeight = 4\<rparr>] ! 0) =
     Finite (6567749456581973 / 4398046511104) \<and>
   py (albumLayout [\<lparr>naturalWidth = 3, naturalHeight = 4\<rparr>, \<lparr>naturalWidth = 3, naturalHeight = 4\<rparr>,
         \<lparr>naturalWidth = 3, naturalHeight = 4\<rparr>] ! 2) =
     Finite (8810753177245013 / 4398046511104) \<and>
   (3 :: 32 word) \<noteq> 0 \<and> (4 :: 32 word) \<noteq> 0 \<and>
   \<bar>6567749456581973 / 4398046511104 - 1120 / (3 / 4 :: rat)\<bar> \<le> 1120 / (3 / 4) / 2 ^ 51 \<and>
   \<bar>8810753177245013 / 4398046511104 - (350 + 80 + 1120 / (3 / 4 :: rat) + 80)\<bar> \<le>
     (350 + 80 + 1120 / (3 / 4) + 80) / 2 ^ 49"
proof -
  let ?imgs = "[\<lparr>naturalWidth = 3, naturalHeight = 4\<rparr>, \<lparr>naturalWidth = 3, naturalHeight = 4\<rparr>,
         \<lparr>naturalWidth = 3, naturalHeight = 4\<rparr>]"
  note g = albumLayout_grid [of ?imgs]
  note gi = g [THEN conjunct2, THEN conjunct2, THEN conjunct2, THEN conjunct2, rule_format]
  have len: "length ?imgs = 3" by simp
  have i0: "(0::nat) < length ?imgs" and i1: "(1::nat) < length ?imgs"
    and i2: "(2::nat) < length ?imgs"
    by simp_all
  have nz: "naturalWidth (?imgs ! 0) \<noteq> 0 \<and> naturalHeight (?imgs ! 0) \<noteq> 0"
    by simp
  have second: "(2::nat) div 2 = 1" by simp
  have e1: "ddiv (Finite 3) (Finite 4) = Finite (3 / 4)"
    by code_simp
  have e2: "ddiv (Finite 1120) (Finite (3 / 4)) = Finite (6567749456581973 / 4398046511104)"
    by code_simp
  have e3: "dadd (Finite 430) (dadd (Finite (6567749456581973 / 4398046511104)) (Finite 80)) =
      Finite (8810753177245013 / 4398046511104)"
    by code_simp
  from g have cw: "cellWidth = Finite 1120" by simp
  from g len have r: "rows ?imgs = 2" by blast
  from gi [OF i1] have "px (albumLayout ?imgs ! 1) =
      Finite (80 + of_nat (1 mod 2) * ((2480 - 3 * 80) / 2 + 80))"
    by (rule conjunct1)
  then have x1: "px (albumLayout ?imgs ! 1) = Finite 1280" by simp
  from gi [OF i2] have "px (albumLayout ?imgs ! 2) =
      Finite (80 + of_nat (2 mod 2) * ((2480 - 3 * 80) / 2 + 80))"
    by (rule conjunct1)
  then have x2: "px (albumLayout ?imgs ! 2) = Finite 80" by simp
  note g0 = gi [OF i0, THEN conjunct2, THEN conjunct2]
  from g0 have "drawHeight (albumLayout ?imgs ! 0) =
      ddiv cellWidth
        (ddiv (Finite (of_nat (unat (naturalWidth (?imgs ! 0)))))
           (Finite (of_nat (unat (naturalHeight (?imgs ! 0))))))"
    by (rule conjunct1)
  then have "drawHeight (albumLayout ?imgs ! 0) = ddiv (Finite 1120) (ddiv (Finite 3) (Finite 4))"
    by (simp add: cw del: ddiv.simps)
  then have h: "drawHeight (albumLayout ?imgs ! 0) = Finite (6567749456581973 / 4398046511104)"
    by (simp only: e1 e2)
  from g0 [THEN conjunct2, THEN conjunct1, rule_format, OF nz]
  obtain h' where "drawHeight (albumLayout ?imgs ! 0) = Finite h'"
    and "\<bar>h' - 1120 / (of_nat (unat (naturalWidth (?imgs ! 0))) /
                        of_nat (unat (naturalHeight (?imgs ! 0))))\<bar> \<le>
         1120 / (of_nat (unat (naturalWidth (?imgs ! 0))) /
                 of_nat (unat (naturalHeight (?imgs ! 0)))) / 2 ^ 51"
    by blast
  with h have hacc: "\<bar>6567749456581973 / 4398046511104 - 1120 / (3 / 4 :: rat)\<bar> \<le>
      1120 / (3 / 4) / 2 ^ 51"
    by simp
  note g2 = gi [OF i2, THEN conjunct2, THEN conjunct2, THEN conjunct2, THEN conjunct2,
    THEN conjunct2]
  from g2 [THEN conjunct1, rule_format, OF second]
  have "py (albumLayout ?imgs ! 2) =
      dadd (Finite (350 + 80)) (dadd (drawHeight (albumLayout ?imgs ! 0)) (Finite 80))" .
  then have "py (albumLayout ?imgs ! 2) =
      dadd (Finite 430) (dadd (Finite (6567749456581973 / 4398046511104)) (Finite 80))"
    by (simp add: h del: dadd.simps)
  then have y: "py (albumLayout ?imgs ! 2) = Finite (8810753177245013 / 4398046511104)"
    by (simp only: e3)
  from second nz have "2 div 2 = (1::nat) \<and> naturalWidth (?imgs ! 0) \<noteq> 0 \<and>
      naturalHeight (?imgs ! 0) \<noteq> 0"
    by blast
  from g2 [THEN conjunct2, rule_format, OF this]
  obtain y' where "py (albumLayout ?imgs ! 2) = Finite y'"
    and "\<bar>y' - (350 + 80 + 1120 / (of_nat (unat (naturalWidth (?imgs ! 0))) /
                                       of_nat (unat (naturalHeight (?imgs ! 0)))) + 80)\<bar> \<le>
         (350 + 80 + 1120 / (of_nat (unat (naturalWidth (?imgs ! 0))) /
                             of_nat (unat (naturalHeight (?imgs ! 0)))) + 80) / 2 ^ 49"
    by blast
  with y have yacc: "\<bar>8810753177245013 / 4398046511104 - (350 + 80 + 1120 / (3 / 4 :: rat) + 80)\<bar> \<le>
     (350 + 80 + 1120 / (3 / 4) + 80) / 2 ^ 49"
    by simp
  have w: "(3 :: 32 word) \<noteq> 0" "(4 :: 32 word) \<noteq> 0" by simp_all
  from r x1 x2 h y w hacc yacc show ?thesis
    by (intro conjI)
qed

text \<open>
  C9 as stated fails for three images of 12 by 1. The height the code computes is the
  double 93.33333333333333, not \<open>1120 / 12\<close>; the second row is at the double
  603.3333333333333, which is neither \<open>350 + 80 + 1120 / 12 + 80\<close>, nor that sum with the
  computed height in place of \<open>1120 / 12\<close>, nor the sum of the claim taken from left to right
  in double arithmetic, which is the double 603.3333333333334.
\<close>

theorem albumLayout_rounding_counterexample:
  "drawHeight (albumLayout [\<lparr>naturalWidth = 12, naturalHeight = 1\<rparr>,
      \<lparr>naturalWidth = 12, naturalHeight = 1\<rparr>, \<lparr>naturalWidth = 12, naturalHeight = 1\<rparr>] ! 0) =
     Finite (6567749456581973 / 70368744177664) \<and>
   (6567749456581973 / 70368744177664 :: rat) \<noteq> 1120 / (12 / 1) \<and>
   py (albumLayout [\<lparr>naturalWidth = 12, naturalHeight = 1\<rparr>,
      \<lparr>naturalWidth = 12, naturalHeight = 1\<rparr>, \<lparr>naturalWidth = 12, naturalHeight = 1\<rparr>] ! 2) =
     Finite (2653488061699413 / 4398046511104) \<and>
   (2653488061699413 / 4398046511104 :: rat) \<noteq> 350 + 80 + 1120 / (12 / 1) + 80 \<and>
   (2653488061699413 / 4398046511104 :: rat) \<noteq>
     350 + 80 + 6567749456581973 / 70368744177664 + 80 \<and>
   dadd (dadd (dadd (Finite 350) (Finite 80)) (Finite (6567749456581973 / 70368744177664)))
     (Finite 80) = Finite (5306976123398827 / 8796093022208) \<and>
   (2653488061699413 / 4398046511104 :: rat) \<noteq> 5306976123398827 / 8796093022208"
proof -
  let ?imgs = "[\<lparr>naturalWidth = 12, naturalHeight = 1\<rparr>,
      \<lparr>naturalWidth = 12, naturalHeight = 1\<rparr>, \<lparr>naturalWidth = 12, naturalHeight = 1\<rparr>]"
  have e1: "ddiv (Finite 12) (Finite 1) = Finite 12"
    by code_simp
  have e2: "ddiv (Finite 1120) (Finite 12) = Finite (6567749456581973 / 70368744177664)"
    by code_simp
  have e3: "dadd (Finite 430) (dadd (Finite (6567749456581973 / 70368744177664)) (Finite 80)) =
      Finite (2653488061699413 / 4398046511104)"
    by code_simp
  have e4: "dadd (dadd (dadd (Finite 350) (Finite 80))
      (Finite (6567749456581973 / 70368744177664))) (Finite 80) =
      Finite (5306976123398827 / 8796093022208)"
    by code_simp
  have "drawHeight (albumLayout ?imgs ! 0) = ddiv (Finite 1120) (ddiv (Finite 12) (Finite 1))"
    by (simp add: albumLayout_nth aspectRatio_def fromWord_values cellWidth_value
        del: ddiv.simps)
  then have h: "drawHeight (albumLayout ?imgs ! 0) = Finite (6567749456581973 / 70368744177664)"
    by (simp only: e1 e2)
  have "py (albumLayout ?imgs ! 2) =
      dadd (Finite 430) (dadd (ddiv (Finite 1120) (ddiv (Finite 12) (Finite 1))) (Finite 80))"
    by (simp add: albumLayout_nth yOffsetOfRow_Suc yOffsetOfRow_0 gridPadding_def aspectRatio_def
        fromWord_values cellWidth_value del: ddiv.simps dadd.simps)
  then have y: "py (albumLayout ?imgs ! 2) = Finite (2653488061699413 / 4398046511104)"
    by (simp only: e1 e2 e3)
  from h y e4 show ?thesis by simp
qed

end
